theory Spec2Isabelle
  imports Main
begin

section \<open>JavaScript strings\<close>

text \<open>
  A JavaScript string is a sequence of UTF-16 code units; \<open>search\<close>, \<open>substring\<close> and
  \<open>replace\<close> (without the \<open>u\<close> flag) index and match code units. A string is modelled as the
  list of its code units, each a natural number. \<open>str\<close> embeds a literal.
\<close>

type_synonym jsstring = "nat list"

definition str :: "string \<Rightarrow> jsstring" where
  "str s = map of_char s"

text \<open>ECMAScript \<open>LineTerminator\<close>: LF, CR, LS (U+2028), PS (U+2029).\<close>

definition isLineTerminator :: "nat \<Rightarrow> bool" where
  "isLineTerminator c = (c = 10 \<or> c = 13 \<or> c = 8232 \<or> c = 8233)"

text \<open>
  ECMAScript \<open>WhiteSpace\<close>: TAB, VT, FF, SP, NBSP, ZWNBSP and the code points of category Zs.
  \<open>String.prototype.trim\<close> removes white space and line terminators from both ends.
\<close>

definition isWhiteSpace :: "nat \<Rightarrow> bool" where
  "isWhiteSpace c = (c = 9 \<or> c = 11 \<or> c = 12 \<or> c = 32 \<or> c = 160 \<or> c = 65279 \<or>
     c = 5760 \<or> (8192 \<le> c \<and> c \<le> 8202) \<or> c = 8239 \<or> c = 8287 \<or> c = 12288)"

definition trim :: "jsstring \<Rightarrow> jsstring" where
  "trim s = (let sp = (\<lambda>c. isWhiteSpace c \<or> isLineTerminator c)
             in rev (dropWhile sp (rev (dropWhile sp s))))"

text \<open>\<open>String.prototype.substring\<close> with one argument; a negative start counts as 0.\<close>

definition substring :: "jsstring \<Rightarrow> int \<Rightarrow> jsstring" where
  "substring s start = drop (nat start) s"

section \<open>The regular expressions of the module\<close>

text \<open>
  The two regular expression literals of \<open>changelog.ts\<close> use character atoms, a character
  class, \<open>+\<close> and \<open>?\<close> on single characters, concatenation, alternation, \<open>^\<close> (under the
  \<open>m\<close> flag) and \<open>$\<close> (without it). \<open>ends r s i\<close> lists the positions at which a match
  of \<open>r\<close> that starts at \<open>i\<close> can end, in the order in which the backtracking matcher of
  ECMAScript tries them: greedy quantifiers give the longest run first, an alternation its
  left branch first.
\<close>

datatype cls = Single nat | Range nat nat

fun inCls :: "cls \<Rightarrow> nat \<Rightarrow> bool" where
  "inCls (Single a) c = (c = a)"
| "inCls (Range lo hi) c = (lo \<le> c \<and> c \<le> hi)"

datatype re =
    Bol                \<comment> \<open>\<open>^\<close> with the \<open>m\<close> flag\<close>
  | Eoi                \<comment> \<open>\<open>$\<close> without the \<open>m\<close> flag\<close>
  | One cls
  | Many1 cls          \<comment> \<open>\<open>c+\<close>, greedy\<close>
  | Opt1 cls           \<comment> \<open>\<open>c?\<close>, greedy\<close>
  | Lit jsstring
  | Cat re re
  | Or re re

definition run :: "cls \<Rightarrow> jsstring \<Rightarrow> nat \<Rightarrow> nat" where
  "run c s i = length (takeWhile (inCls c) (drop i s))"

fun ends :: "re \<Rightarrow> jsstring \<Rightarrow> nat \<Rightarrow> nat list" where
  "ends Bol s i = (if i = 0 \<or> isLineTerminator (s ! (i - 1)) then [i] else [])"
| "ends Eoi s i = (if i = length s then [i] else [])"
| "ends (One c) s i = (if i < length s \<and> inCls c (s ! i) then [Suc i] else [])"
| "ends (Many1 c) s i = rev (map (\<lambda>k. i + k) [1 ..< Suc (run c s i)])"
| "ends (Opt1 c) s i = (if i < length s \<and> inCls c (s ! i) then [Suc i, i] else [i])"
| "ends (Lit w) s i = (if take (length w) (drop i s) = w then [i + length w] else [])"
| "ends (Cat a b) s i = concat (map (ends b s) (ends a s i))"
| "ends (Or a b) s i = ends a s i @ ends b s i"

text \<open>The first position from \<open>i\<close> on at which \<open>r\<close> matches, as the matcher scans.\<close>

fun scan :: "re \<Rightarrow> jsstring \<Rightarrow> nat \<Rightarrow> nat \<Rightarrow> (nat \<times> nat) option" where
  "scan r s i 0 = (case ends r s i of [] \<Rightarrow> None | e # _ \<Rightarrow> Some (i, e))"
| "scan r s i (Suc n) =
     (case ends r s i of [] \<Rightarrow> scan r s (Suc i) n | e # _ \<Rightarrow> Some (i, e))"

definition exec :: "re \<Rightarrow> jsstring \<Rightarrow> (nat \<times> nat) option" where
  "exec r s = scan r s 0 (length s)"

text \<open>\<open>String.prototype.search\<close>: the index of the first match, or \<open>-1\<close>.\<close>

definition search :: "jsstring \<Rightarrow> re \<Rightarrow> int" where
  "search s r = (case exec r s of None \<Rightarrow> -1 | Some (i, e) \<Rightarrow> int i)"

text \<open>
  \<open>String.prototype.replace\<close> with a regular expression without the \<open>g\<close> flag and a
  replacement string without \<open>$\<close>: the first match is replaced.
\<close>

definition replace :: "jsstring \<Rightarrow> re \<Rightarrow> jsstring \<Rightarrow> jsstring" where
  "replace s r new = (case exec r s of None \<Rightarrow> s | Some (i, e) \<Rightarrow> take i s @ new @ drop e s)"

fun seq :: "re list \<Rightarrow> re" where
  "seq [] = Lit []"
| "seq [r] = r"
| "seq (r # rs) = Cat r (seq rs)"

text \<open>\<^verbatim>\<open>/(^#+ \[?[0-9]+\.[0-9]+\.[0-9]+|<a name=)/m\<close>\<close>

definition START_OF_LAST_RELEASE_PATTERN :: re where
  "START_OF_LAST_RELEASE_PATTERN =
     Or (seq [Bol, Many1 (Single (of_char CHR ''#'')), One (Single (of_char CHR '' '')),
              Opt1 (Single (of_char CHR ''['')),
              Many1 (Range (of_char CHR ''0'') (of_char CHR ''9'')), One (Single (of_char CHR ''.'')),
              Many1 (Range (of_char CHR ''0'') (of_char CHR ''9'')), One (Single (of_char CHR ''.'')),
              Many1 (Range (of_char CHR ''0'') (of_char CHR ''9''))])
        (Lit (str ''<a name=''))"

text \<open>\<^verbatim>\<open>/\n+$/\<close>\<close>

definition TRAILING_NEWLINES :: re where
  "TRAILING_NEWLINES = Cat (Many1 (Single 10)) Eoi"

section \<open>Data model\<close>

text \<open>
  The types imported from \<open>../types\<close>, with the fields this module reads. An optional
  field is an \<open>option\<close>; \<open>ExperimentalChangesTreatment\<close> is a string at run time, and
  \<open>writeChangelogs\<close> has a branch for values outside the three it knows.
\<close>

record LifecyclesSkip =
  skipChangelog :: "bool option"

record Versions =
  stableVersion :: jsstring
  alphaVersion :: "jsstring option"

record PackageInfo =
  simplifiedName :: jsstring
  location :: jsstring
  unstable :: bool

record ChangelogOptions =
  skip :: "LifecyclesSkip option"
  changelogFile :: jsstring
  dryRun :: "bool option"
  verbose :: "bool option"
  silent :: "bool option"
  experimentalChangesTreatment :: "jsstring option"
  changeLogHeader :: "jsstring option"
  includeDateInChangelog :: "bool option"
  releaseCommitMessageFormat :: "jsstring option"

record ChangelogResult =
  filePath :: jsstring
  fileContents :: jsstring

text \<open>Truthiness of an optional boolean and of an optional string.\<close>

definition truthy :: "bool option \<Rightarrow> bool" where
  "truthy b = (b = Some True)"

definition falsy :: "jsstring option \<Rightarrow> bool" where
  "falsy s = (case s of None \<Rightarrow> True | Some v \<Rightarrow> v = [])"

text \<open>String conversion of an optional string in a concatenation or a template literal.\<close>

definition toString :: "jsstring option \<Rightarrow> jsstring" where
  "toString s = (case s of None \<Rightarrow> str ''undefined'' | Some v \<Rightarrow> v)"

text \<open>
  What a call can fail with: \<open>new Error(message)\<close> thrown by this module, a value an
  external collaborator (preset loader, renderer) rejects with, or the error of
  \<open>fs.readFileSync\<close> on a path that does not exist.
\<close>

datatype 'x error = Error jsstring | Rejected 'x | ENOENT jsstring

section \<open>The world: files and the notification channel\<close>

datatype print = Notify jsstring "jsstring list" | Debug jsstring

record world =
  files :: "jsstring \<rightharpoonup> jsstring"
  printed :: "print list"

definition existsSync :: "world \<Rightarrow> jsstring \<Rightarrow> bool" where
  "existsSync w path = (files w path \<noteq> None)"

definition readFileSync :: "world \<Rightarrow> jsstring \<Rightarrow> 'x error + jsstring" where
  "readFileSync w path = (case files w path of None \<Rightarrow> Inl (ENOENT path) | Some c \<Rightarrow> Inr c)"

text \<open>
  Modelled from the spec: \<open>writeFile\<close> of \<open>../private/files\<close>, which is not part of the
  sources at hand. The specification has file writes skipped entirely in dry-run mode, and
  the creation of a missing changelog happen unless dry-run.
\<close>

definition writeFile :: "ChangelogOptions \<Rightarrow> jsstring \<Rightarrow> jsstring \<Rightarrow> world \<Rightarrow> world" where
  "writeFile args path content w =
     (if truthy (dryRun args) then w else w\<lparr>files := (files w)(path \<mapsto> content)\<rparr>)"

text \<open>
  Modelled from the spec: \<open>notify\<close> and \<open>debug\<close> of \<open>../private/print\<close>, which are not part
  of the sources at hand: a logging interface invoked with a message template and
  arguments. The model records each invocation.
\<close>

definition notify :: "ChangelogOptions \<Rightarrow> jsstring \<Rightarrow> jsstring list \<Rightarrow> world \<Rightarrow> world" where
  "notify args msg params w = w\<lparr>printed := printed w @ [Notify msg params]\<rparr>"

definition debug :: "ChangelogOptions \<Rightarrow> jsstring \<Rightarrow> world \<Rightarrow> world" where
  "debug args msg w = w\<lparr>printed := printed w @ [Debug msg]\<rparr>"

section \<open>The external collaborators\<close>

text \<open>The render context built by \<open>changelog\<close>.\<close>

record Context =
  issue :: jsstring
  commit :: jsstring
  version :: jsstring
  host :: jsstring
  owner :: jsstring
  repository :: jsstring
  repoUrl :: jsstring
  linkCompare :: bool
  previousTag :: jsstring
  currentTag :: jsstring
  isPatch :: bool

text \<open>
  The context the writer hands to \<open>finalizeContext\<close>: the hook reads and writes the
  titles of the note groups and the date; everything else is carried along unchanged in
  the extension part of the records.
\<close>

record noteGroup =
  title :: jsstring

record 'n finalContext =
  noteGroups :: "'n noteGroup_scheme list option"
  date :: "jsstring option"

text \<open>
  The stream returned by the writer emits \<open>data\<close> events and then either \<open>end\<close> or
  \<open>error\<close>.
\<close>

datatype 'x stream = Ended "jsstring list" | Errored "jsstring list" 'x

record FilterCommitsOptions =
  excludePackages :: "jsstring list option"
  includePackages :: "jsstring list option"

text \<open>
  The functions this module calls and does not define: \<open>filterCommits\<close> of
  \<open>../conventional-commits\<close>, \<open>path.join\<close>, the preset loader (its promise resolves with
  the preset's writer options or rejects) and the writer, which receives the context, the
  writer options of the preset, the \<open>finalizeContext\<close> hook and the commits pushed into
  the stream. \<open>'c\<close> is the type of a commit.
\<close>

record ('c, 'o, 'x, 'n, 'z) deps =
  filterCommits :: "'c list \<Rightarrow> FilterCommitsOptions \<Rightarrow> 'c list"
  path_join :: "jsstring \<Rightarrow> jsstring \<Rightarrow> jsstring"
  conventionalChangelogPresetLoader :: "jsstring \<Rightarrow> 'x + 'o"
  conventionalChangelogWriter ::
    "Context \<Rightarrow> 'o \<Rightarrow> (('n, 'z) finalContext_scheme \<Rightarrow> ('n, 'z) finalContext_scheme)
       \<Rightarrow> 'c list \<Rightarrow> 'x stream"

text \<open>
  Modelled from the spec: \<open>filterCommits\<close> of \<open>../conventional-commits\<close>, which is not part
  of the sources at hand. The specification associates each commit with zero or more
  package names (\<open>packagesOf\<close>), has \<open>excludePackages\<close> drop every commit associated only
  with excluded packages and keep all others, and \<open>includePackages\<close> keep the commits of
  the included packages only. For a commit with at most one package, dropping it when it is
  associated only with excluded packages is dropping it when it is associated with an
  excluded package, the specification's other wording.
\<close>

definition filterCommits_spec ::
  "('c \<Rightarrow> jsstring list) \<Rightarrow> 'c list \<Rightarrow> FilterCommitsOptions \<Rightarrow> 'c list" where
  "filterCommits_spec packagesOf commits opts =
     filter (\<lambda>c. (case includePackages opts of None \<Rightarrow> True
                   | Some incl \<Rightarrow> \<exists>n \<in> set (packagesOf c). n \<in> set incl)
               \<and> (case excludePackages opts of None \<Rightarrow> True
                   | Some excl \<Rightarrow> packagesOf c = [] \<or> (\<exists>n \<in> set (packagesOf c). n \<notin> set excl)))
       commits"

section \<open>\<open>changelog\<close>\<close>

definition createChangelogIfMissing :: "ChangelogOptions \<Rightarrow> world \<Rightarrow> world" where
  "createChangelogIfMissing args w =
     (if \<not> existsSync w (changelogFile args)
      then writeFile args (changelogFile args) (str ''\<newline>'')
             (notify args (str ''created %s'') [changelogFile args] w)
      else w)"

text \<open>Lines 89 to 92: the old content from the start of the last release on.\<close>

definition changelog_oldContent :: "jsstring \<Rightarrow> jsstring" where
  "changelog_oldContent oldContent =
     (let oldContentStart = search oldContent START_OF_LAST_RELEASE_PATTERN
      in if oldContentStart \<noteq> -1 then substring oldContent oldContentStart else oldContent)"

text \<open>
  Lines 85 to 92, the part of \<open>changelog\<close> that runs at the call, before the first
  \<open>await\<close>.
\<close>

definition changelog_start :: "ChangelogOptions \<Rightarrow> world \<Rightarrow> ('x error + jsstring) \<times> world" where
  "changelog_start args w =
     (let w1 = createChangelogIfMissing args w
      in case (if truthy (dryRun args) then Inr [] else readFileSync w1 (changelogFile args)) of
           Inl e \<Rightarrow> (Inl e, w1)
         | Inr oldContent \<Rightarrow> (Inr (changelog_oldContent oldContent), w1))"

definition mkContext :: "jsstring \<Rightarrow> jsstring \<Rightarrow> Context" where
  "mkContext currentVersion newVersion =
     (let host = str ''https://github.com''; owner = str ''aws''; repository = str ''aws-cdk''
      in \<lparr> issue = str ''issues'', commit = str ''commit'', version = newVersion,
           host = host, owner = owner, repository = repository,
           repoUrl = host @ str ''/'' @ owner @ str ''/'' @ repository,
           linkCompare = True,
           previousTag = str ''v'' @ currentVersion,
           currentTag = str ''v'' @ newVersion,
           isPatch = False \<rparr>)"

definition finalizeContext ::
  "ChangelogOptions \<Rightarrow> ('n, 'z) finalContext_scheme \<Rightarrow> ('n, 'z) finalContext_scheme" where
  "finalizeContext args ctx =
     (let ctx1 = (case noteGroups ctx of None \<Rightarrow> ctx
                  | Some groups \<Rightarrow> ctx\<lparr>noteGroups := Some (map (\<lambda>noteGroup.
                      if title noteGroup = str ''BREAKING CHANGES''
                      then noteGroup\<lparr>title := str ''BREAKING CHANGES TO EXPERIMENTAL FEATURES''\<rparr>
                      else noteGroup) groups)\<rparr>)
      in if includeDateInChangelog args = Some False then ctx1\<lparr>date := None\<rparr> else ctx1)"

text \<open>The stream \<open>changelogStream\<close> of line 126.\<close>

definition changelogStream ::
  "('c, 'o, 'x, 'n, 'z) deps \<Rightarrow> ChangelogOptions \<Rightarrow> 'o \<Rightarrow> jsstring \<Rightarrow> jsstring \<Rightarrow> 'c list
     \<Rightarrow> 'x stream" where
  "changelogStream d args presetConfig currentVersion newVersion commits =
     conventionalChangelogWriter d (mkContext currentVersion newVersion) presetConfig
       (finalizeContext args) commits"

text \<open>The text written to the changelog file, line 163.\<close>

definition merged :: "ChangelogOptions \<Rightarrow> jsstring \<Rightarrow> jsstring \<Rightarrow> jsstring" where
  "merged args content oldContent =
     toString (changeLogHeader args) @ str ''\<newline>''
       @ replace (content @ oldContent) TRAILING_NEWLINES (str ''\<newline>'')"

text \<open>
  Lines 94 to 167, the part of \<open>changelog\<close> that runs after the preset has loaded and the
  stream has ended or failed. The \<open>data\<close> handler appends each chunk to \<open>content\<close>.
\<close>

definition changelog_finish ::
  "('c, 'o, 'x, 'n, 'z) deps \<Rightarrow> ChangelogOptions \<Rightarrow> jsstring \<Rightarrow> jsstring \<Rightarrow> 'c list \<Rightarrow> jsstring
     \<Rightarrow> world \<Rightarrow> ('x error + jsstring) \<times> world" where
  "changelog_finish d args currentVersion newVersion commits oldContent w =
     (case conventionalChangelogPresetLoader d (str ''conventional-changelog-conventionalcommits'') of
        Inl x \<Rightarrow> (Inl (Rejected x), w)
      | Inr presetConfig \<Rightarrow>
          (case changelogStream d args presetConfig currentVersion newVersion commits of
             Errored chunks err \<Rightarrow> (Inl (Rejected err), w)
           | Ended chunks \<Rightarrow>
               (let content = foldl (@) [] chunks;
                    w1 = notify args (str ''outputting changes to %s'') [changelogFile args] w;
                    w2 = (if truthy (dryRun args)
                          then debug args (str ''\<newline>---\<newline>'' @ trim content @ str ''\<newline>---\<newline>'') w1
                          else writeFile args (changelogFile args) (merged args content oldContent) w1)
                in (Inr content, w2))))"

definition changelog ::
  "('c, 'o, 'x, 'n, 'z) deps \<Rightarrow> ChangelogOptions \<Rightarrow> jsstring \<Rightarrow> jsstring \<Rightarrow> 'c list
     \<Rightarrow> world \<Rightarrow> ('x error + jsstring) \<times> world" where
  "changelog d args currentVersion newVersion commits w =
     (case changelog_start args w of
        (Inl e, w1) \<Rightarrow> (Inl e, w1)
      | (Inr oldContent, w1) \<Rightarrow>
          changelog_finish d args currentVersion newVersion commits oldContent w1)"

section \<open>\<open>writeChangelogs\<close>\<close>

text \<open>
  Under the \<open>separate\<close> treatment the callback of \<open>unstablePackages.forEach\<close> is an
  \<open>async\<close> function whose promise nobody awaits. Each callback runs up to the first
  \<open>await\<close> inside its call of \<open>changelog\<close> (lines 85 to 92 have run, the preset is being
  loaded) and \<open>forEach\<close> moves on to the next package; then \<open>writeChangelogs\<close> starts the
  render of the stable changelog and awaits it. A started call of \<open>changelog\<close> is recorded
  with its arguments and the outcome of its first part.
\<close>

record ('c, 'x) started =
  call_args :: ChangelogOptions
  call_currentVersion :: jsstring
  call_newVersion :: jsstring
  call_commits :: "'c list"
  call_oldContent :: "'x error + jsstring"

text \<open>Lines 63 to 69, up to the point where the callback is suspended.\<close>

definition forEach_start ::
  "('c, 'o, 'x, 'n, 'z) deps \<Rightarrow> ChangelogOptions \<Rightarrow> jsstring \<Rightarrow> jsstring \<Rightarrow> 'c list
     \<Rightarrow> PackageInfo \<Rightarrow> world \<Rightarrow> ('c, 'x) started \<times> world" where
  "forEach_start d args currentAlpha newAlpha commits pkg w =
     (let pkgCommits = filterCommits d commits
            \<lparr>excludePackages = None, includePackages = Some [simplifiedName pkg]\<rparr>;
          pkgChangelog = path_join d (location pkg) (changelogFile args);
          pkgArgs = args\<lparr>changelogFile := pkgChangelog\<rparr>;
          (r, w1) = changelog_start pkgArgs w
      in (\<lparr>call_args = pkgArgs, call_currentVersion = currentAlpha, call_newVersion = newAlpha,
            call_commits = pkgCommits, call_oldContent = r\<rparr>, w1))"

fun forEach_starts ::
  "('c, 'o, 'x, 'n, 'z) deps \<Rightarrow> ChangelogOptions \<Rightarrow> jsstring \<Rightarrow> jsstring \<Rightarrow> 'c list
     \<Rightarrow> PackageInfo list \<Rightarrow> world \<Rightarrow> ('c, 'x) started list \<times> world" where
  "forEach_starts d args currentAlpha newAlpha commits [] w = ([], w)"
| "forEach_starts d args currentAlpha newAlpha commits (pkg # pkgs) w =
     (let (c, w1) = forEach_start d args currentAlpha newAlpha commits pkg w;
          (cs, w2) = forEach_starts d args currentAlpha newAlpha commits pkgs w1
      in (c # cs, w2))"

text \<open>
  The rest of a callback, lines 69 and 70, once its render has ended: the result is pushed
  to \<open>changelogResults\<close>. A callback whose call of \<open>changelog\<close> fails pushes nothing, and
  its rejection reaches nobody.
\<close>

definition forEach_finish ::
  "('c, 'o, 'x, 'n, 'z) deps \<Rightarrow> ('c, 'x) started \<Rightarrow> ChangelogResult list \<Rightarrow> world
     \<Rightarrow> ChangelogResult list \<times> world" where
  "forEach_finish d c changelogResults w =
     (case call_oldContent c of
        Inl e \<Rightarrow> (changelogResults, w)
      | Inr oldContent \<Rightarrow>
          (case changelog_finish d (call_args c) (call_currentVersion c) (call_newVersion c)
                  (call_commits c) oldContent w of
             (Inl e, w1) \<Rightarrow> (changelogResults, w1)
           | (Inr contents, w1) \<Rightarrow>
               (changelogResults @
                  [\<lparr>filePath = changelogFile (call_args c), fileContents = contents\<rparr>], w1)))"

text \<open>
  Which renders end first is decided by the preset loader and the writer, not by this
  module. The schedule \<open>sched\<close> lists, in the order in which they end, the package renders
  (by their index in \<open>unstablePackages\<close>) that end before the render of the stable changelog
  does; the others end after \<open>writeChangelogs\<close> has returned. An entry that names no
  started render, or one that has ended already, is passed over.
\<close>

fun completions ::
  "('c, 'o, 'x, 'n, 'z) deps \<Rightarrow> ('c, 'x) started list \<Rightarrow> nat list \<Rightarrow> nat list
     \<Rightarrow> ChangelogResult list \<Rightarrow> world \<Rightarrow> ChangelogResult list \<times> world" where
  "completions d calls [] finished changelogResults w = (changelogResults, w)"
| "completions d calls (i # sched) finished changelogResults w =
     (if i < length calls \<and> i \<notin> set finished
      then (let (rs, w1) = forEach_finish d (calls ! i) changelogResults w
            in completions d calls sched (i # finished) rs w1)
      else completions d calls sched finished changelogResults w)"

text \<open>Lines 60 to 75.\<close>

definition separate ::
  "('c, 'o, 'x, 'n, 'z) deps \<Rightarrow> nat list \<Rightarrow> ChangelogOptions \<Rightarrow> jsstring \<Rightarrow> jsstring
     \<Rightarrow> jsstring \<Rightarrow> jsstring \<Rightarrow> 'c list \<Rightarrow> PackageInfo list \<Rightarrow> 'c list \<Rightarrow> world
     \<Rightarrow> ('x error + ChangelogResult list) \<times> world" where
  "separate d sched args currentAlpha newAlpha currentStable newStable commits unstablePackages
     stableCommits w =
     (let (calls, w1) = forEach_starts d args currentAlpha newAlpha commits unstablePackages w
      in case changelog_start args w1 of
           (Inl e, w2) \<Rightarrow> (Inl e, w2)
         | (Inr oldContent, w2) \<Rightarrow>
             (let (changelogResults, w3) = completions d calls sched [] [] w2
              in case changelog_finish d args currentStable newStable stableCommits oldContent w3 of
                   (Inl e, w4) \<Rightarrow> (Inl e, w4)
                 | (Inr contents, w4) \<Rightarrow>
                     (Inr (changelogResults @
                        [\<lparr>filePath = changelogFile args, fileContents = contents\<rparr>]), w4)))"

text \<open>The condition \<open>args.skip?.changelog\<close> of line 41.\<close>

definition skipsChangelog :: "ChangelogOptions \<Rightarrow> bool" where
  "skipsChangelog args = (case skip args of None \<Rightarrow> False | Some s \<Rightarrow> truthy (skipChangelog s))"

text \<open>
  \<open>writeChangelogs\<close>, lines 33 to 79. The result is what the returned promise settles with
  (\<open>Inl\<close> when the function throws or an awaited call rejects) and the world at that moment.
  The non-null assertions of line 69 are \<open>the\<close>: the guard of line 56 has let only
  defined, non-empty alpha versions through.
\<close>

definition writeChangelogs ::
  "('c, 'o, 'x, 'n, 'z) deps \<Rightarrow> nat list \<Rightarrow> ChangelogOptions \<Rightarrow> Versions \<Rightarrow> Versions
     \<Rightarrow> 'c list \<Rightarrow> PackageInfo list \<Rightarrow> world \<Rightarrow> ('x error + ChangelogResult list) \<times> world" where
  "writeChangelogs d sched args currentVersion newVersion commits packages w =
     (if skipsChangelog args then (Inr [], w)
      else
        (let treatment = (case experimentalChangesTreatment args of
                            None \<Rightarrow> str ''include'' | Some t \<Rightarrow> t);
             unstablePackages = filter unstable packages;
             stableCommits = filterCommits d commits
               \<lparr>excludePackages = Some (map simplifiedName unstablePackages), includePackages = None\<rparr>
         in if treatment = str ''include'' then
              (case changelog d args (stableVersion currentVersion) (stableVersion newVersion)
                      commits w of
                 (Inl e, w1) \<Rightarrow> (Inl e, w1)
               | (Inr contents, w1) \<Rightarrow>
                   (Inr [\<lparr>filePath = changelogFile args, fileContents = contents\<rparr>], w1))
            else if treatment = str ''strip'' then
              (case changelog d args (stableVersion currentVersion) (stableVersion newVersion)
                      stableCommits w of
                 (Inl e, w1) \<Rightarrow> (Inl e, w1)
               | (Inr contents, w1) \<Rightarrow>
                   (Inr [\<lparr>filePath = changelogFile args, fileContents = contents\<rparr>], w1))
            else if treatment = str ''separate'' then
              (if falsy (alphaVersion currentVersion) \<or> falsy (alphaVersion newVersion) then
                 (Inl (Error (str
                    ''unable to create \"separate\" changelogs without alpha package versions'')), w)
               else
                 separate d sched args
                   (the (alphaVersion currentVersion)) (the (alphaVersion newVersion))
                   (stableVersion currentVersion) (stableVersion newVersion)
                   commits unstablePackages stableCommits w)
            else
              (Inl (Error (str ''unsupported experimentalChanges type: ''
                 @ toString (experimentalChangesTreatment args))), w)))"

section \<open>Notions used in the statements\<close>

subsection \<open>The start of a release, described\<close>

text \<open>
  What the pattern of line 13 is meant to find, said without a matcher: a heading is one or
  more \<open>#\<close>, a space, an optional \<open>[\<close> and three runs of digits separated by dots; a
  release starts at a position that is the start of a line and is followed by a heading,
  or that is followed by the text \<open><a name=\<close>.
\<close>

definition digits :: "jsstring \<Rightarrow> bool" where
  "digits d = (d \<noteq> [] \<and> (\<forall>c \<in> set d. of_char CHR ''0'' \<le> c \<and> c \<le> of_char CHR ''9''))"

definition releaseHeading :: "jsstring \<Rightarrow> bool" where
  "releaseHeading h =
     (\<exists>hashes bracket major minor patch.
        h = hashes @ str '' '' @ bracket @ major @ str ''.'' @ minor @ str ''.'' @ patch
        \<and> hashes \<noteq> [] \<and> (\<forall>c \<in> set hashes. c = of_char CHR ''#'')
        \<and> (bracket = [] \<or> bracket = str ''['')
        \<and> digits major \<and> digits minor \<and> digits patch)"

definition releaseStartsAt :: "jsstring \<Rightarrow> nat \<Rightarrow> bool" where
  "releaseStartsAt s i =
     (((i = 0 \<or> isLineTerminator (s ! (i - 1)))
        \<and> (\<exists>h rest. drop i s = h @ rest \<and> releaseHeading h))
      \<or> (\<exists>rest. drop i s = str ''<a name='' @ rest))"

text \<open>
  The words an expression without \<open>^\<close> and \<open>$\<close> matches, and the part of a string between
  two positions.
\<close>

fun anchorfree :: "re \<Rightarrow> bool" where
  "anchorfree Bol = False"
| "anchorfree Eoi = False"
| "anchorfree (Cat a b) = (anchorfree a \<and> anchorfree b)"
| "anchorfree (Or a b) = (anchorfree a \<and> anchorfree b)"
| "anchorfree r = True"

fun lang :: "re \<Rightarrow> jsstring set" where
  "lang Bol = {[]}"
| "lang Eoi = {[]}"
| "lang (One c) = {[x] | x. inCls c x}"
| "lang (Many1 c) = {xs. xs \<noteq> [] \<and> (\<forall>x \<in> set xs. inCls c x)}"
| "lang (Opt1 c) = {[]} \<union> {[x] | x. inCls c x}"
| "lang (Lit w) = {w}"
| "lang (Cat a b) = {u @ v | u v. u \<in> lang a \<and> v \<in> lang b}"
| "lang (Or a b) = lang a \<union> lang b"

definition slice :: "jsstring \<Rightarrow> nat \<Rightarrow> nat \<Rightarrow> jsstring" where
  "slice s i e = take (e - i) (drop i s)"

subsection \<open>Trailing newlines\<close>

text \<open>
  A string without the newlines at its end, and a string whose run of newlines at the end,
  if there is one, is a single newline.
\<close>

definition stripNewlines :: "jsstring \<Rightarrow> jsstring" where
  "stripNewlines s = rev (dropWhile (\<lambda>c. c = 10) (rev s))"

definition collapseTrailingNewlines :: "jsstring \<Rightarrow> jsstring" where
  "collapseTrailingNewlines m =
     (if m \<noteq> [] \<and> last m = 10 then stripNewlines m @ str ''\<newline>'' else m)"

subsection \<open>What a call of \<open>changelog\<close> settles with\<close>

text \<open>
  The outcome of loading the preset and running the writer on the commits: the error the
  promise is rejected with, or the text of all chunks. \<open>oldContentOf\<close> is the old
  content that lines 88 to 92 compute in a given world; a missing file has been created with
  a newline by then.
\<close>

definition rendering ::
  "('c, 'o, 'x, 'n, 'z) deps \<Rightarrow> ChangelogOptions \<Rightarrow> jsstring \<Rightarrow> jsstring \<Rightarrow> 'c list
     \<Rightarrow> 'x error + jsstring" where
  "rendering d args currentVersion newVersion commits =
     (case conventionalChangelogPresetLoader d (str ''conventional-changelog-conventionalcommits'') of
        Inl x \<Rightarrow> Inl (Rejected x)
      | Inr presetConfig \<Rightarrow>
          (case conventionalChangelogWriter d (mkContext currentVersion newVersion) presetConfig
                  (finalizeContext args) commits of
             Errored chunks err \<Rightarrow> Inl (Rejected err)
           | Ended chunks \<Rightarrow> Inr (concat chunks)))"

definition oldContentOf :: "ChangelogOptions \<Rightarrow> world \<Rightarrow> jsstring" where
  "oldContentOf args w =
     (if truthy (dryRun args) then []
      else changelog_oldContent (case files w (changelogFile args) of
             None \<Rightarrow> str ''\<newline>'' | Some c \<Rightarrow> c))"

subsection \<open>A writer that calls the hook\<close>

text \<open>
  The specification has the \<open>finalizeContext\<close> hook invoked by the renderer after it has
  grouped the commits into note groups. A writer of that shape is given by the two steps
  around the hook: \<open>grouping\<close> builds the context from the commits (the renderer puts the
  current date into it), the hook is applied, and \<open>template\<close> renders what the hook
  returns.
\<close>

definition hookedWriter ::
  "(Context \<Rightarrow> 'o \<Rightarrow> 'c list \<Rightarrow> ('n, 'z) finalContext_scheme)
     \<Rightarrow> (Context \<Rightarrow> 'o \<Rightarrow> ('n, 'z) finalContext_scheme \<Rightarrow> 'x stream)
     \<Rightarrow> Context \<Rightarrow> 'o \<Rightarrow> (('n, 'z) finalContext_scheme \<Rightarrow> ('n, 'z) finalContext_scheme)
     \<Rightarrow> 'c list \<Rightarrow> 'x stream" where
  "hookedWriter grouping template ctx opts finalize commits =
     template ctx opts (finalize (grouping ctx opts commits))"

subsection \<open>The calls of the \<open>separate\<close> treatment\<close>

text \<open>
  The arguments and commits of the call for a package (lines 63 to 68), what a started call
  pushes when it finishes, the same in terms of the package, and the entries of a schedule
  that name a started render that has not finished yet.
\<close>

definition pkgArgs :: "('c, 'o, 'x, 'n, 'z) deps \<Rightarrow> ChangelogOptions \<Rightarrow> PackageInfo \<Rightarrow> ChangelogOptions" where
  "pkgArgs d args pkg = args\<lparr>changelogFile := path_join d (location pkg) (changelogFile args)\<rparr>"

definition pkgCommits :: "('c, 'o, 'x, 'n, 'z) deps \<Rightarrow> 'c list \<Rightarrow> PackageInfo \<Rightarrow> 'c list" where
  "pkgCommits d commits pkg =
     filterCommits d commits \<lparr>excludePackages = None, includePackages = Some [simplifiedName pkg]\<rparr>"

definition pushed :: "('c, 'o, 'x, 'n, 'z) deps \<Rightarrow> ('c, 'x) started \<Rightarrow> ChangelogResult list" where
  "pushed d c =
     (case rendering d (call_args c) (call_currentVersion c) (call_newVersion c) (call_commits c) of
        Inl e \<Rightarrow> []
      | Inr contents \<Rightarrow> [\<lparr>filePath = changelogFile (call_args c), fileContents = contents\<rparr>])"

definition pkgResult ::
  "('c, 'o, 'x, 'n, 'z) deps \<Rightarrow> ChangelogOptions \<Rightarrow> jsstring \<Rightarrow> jsstring \<Rightarrow> 'c list
     \<Rightarrow> PackageInfo \<Rightarrow> ChangelogResult list" where
  "pkgResult d args currentAlpha newAlpha commits pkg =
     (case rendering d args currentAlpha newAlpha (pkgCommits d commits pkg) of
        Inl e \<Rightarrow> []
      | Inr contents \<Rightarrow>
          [\<lparr>filePath = path_join d (location pkg) (changelogFile args), fileContents = contents\<rparr>])"

fun effective :: "nat \<Rightarrow> nat list \<Rightarrow> nat list \<Rightarrow> nat list" where
  "effective n [] finished = []"
| "effective n (i # sched) finished =
     (if i < n \<and> i \<notin> set finished then i # effective n sched (i # finished)
      else effective n sched finished)"

subsection \<open>Commits of unstable packages\<close>

text \<open>
  A commit is associated only with unstable packages when it has a package and each of its
  packages is the simplified name of a package flagged unstable.
\<close>

definition onlyUnstable :: "('c \<Rightarrow> jsstring list) \<Rightarrow> PackageInfo list \<Rightarrow> 'c \<Rightarrow> bool" where
  "onlyUnstable packagesOf packages c =
     (packagesOf c \<noteq> [] \<and>
      (\<forall>n \<in> set (packagesOf c). \<exists>p \<in> set packages. unstable p \<and> simplifiedName p = n))"

section \<open>Sample inputs\<close>

text \<open>
  A writer that prints a heading with the version and one line for each commit, a preset
  loader that succeeds, \<open>filterCommits\<close> as modelled above on commits that are a subject
  and a list of packages; a stable and an unstable package; a changelog with an unreleased
  section, one release and no newline at its end.
\<close>

type_synonym sample_commit = "jsstring \<times> jsstring list"

definition sample_deps :: "(sample_commit, unit, jsstring, unit, unit) deps" where
  "sample_deps =
     \<lparr> filterCommits = filterCommits_spec snd,
       path_join = (\<lambda>a b. a @ str ''/'' @ b),
       conventionalChangelogPresetLoader = (\<lambda>name. Inr ()),
       conventionalChangelogWriter = (\<lambda>ctx opts finalize commits.
         Ended ((str ''## '' @ version ctx @ str ''\<newline>'')
                # map (\<lambda>c. str ''* '' @ fst c @ str ''\<newline>'') commits)) \<rparr>"

definition failing_deps :: "(sample_commit, unit, jsstring, unit, unit) deps" where
  "failing_deps =
     sample_deps\<lparr>conventionalChangelogWriter :=
       (\<lambda>ctx opts finalize commits. Errored [str ''## ''] (str ''template error''))\<rparr>"

definition sample_args :: ChangelogOptions where
  "sample_args =
     \<lparr> skip = None, changelogFile = str ''CHANGELOG.md'', dryRun = None, verbose = None,
       silent = None, experimentalChangesTreatment = None,
       changeLogHeader = Some (str ''# Changelog''), includeDateInChangelog = Some False,
       releaseCommitMessageFormat = None \<rparr>"

definition separate_args :: ChangelogOptions where
  "separate_args = sample_args\<lparr>experimentalChangesTreatment := Some (str ''separate'')\<rparr>"

definition strip_args :: ChangelogOptions where
  "strip_args = sample_args\<lparr>experimentalChangesTreatment := Some (str ''strip'')\<rparr>"

definition include_args :: ChangelogOptions where
  "include_args = sample_args\<lparr>experimentalChangesTreatment := Some (str ''include'')\<rparr>"

definition dry_args :: ChangelogOptions where
  "dry_args = sample_args\<lparr>dryRun := Some True\<rparr>"

definition sample_current :: Versions where
  "sample_current = \<lparr> stableVersion = str ''1.2.0'', alphaVersion = Some (str ''1.2.0-alpha.0'') \<rparr>"

definition sample_new :: Versions where
  "sample_new = \<lparr> stableVersion = str ''1.3.0'', alphaVersion = Some (str ''1.3.0-alpha.0'') \<rparr>"

definition sample_packages :: "PackageInfo list" where
  "sample_packages =
     [\<lparr> simplifiedName = str ''core'', location = str ''packages/core'', unstable = False \<rparr>,
      \<lparr> simplifiedName = str ''lab'', location = str ''packages/lab'', unstable = True \<rparr>]"

definition sample_commits :: "sample_commit list" where
  "sample_commits =
     [(str ''fix core'', [str ''core'']), (str ''add lab'', [str ''lab'']), (str ''docs'', [])]"

definition unreleased :: jsstring where
  "unreleased = str ''# Unreleased\<newline>\<newline>## [1.2.0]''"

definition sample_world :: world where
  "sample_world =
     \<lparr> files = [str ''CHANGELOG.md'' \<mapsto> unreleased @ str ''\<newline>\<newline>* old''], printed = [] \<rparr>"

definition fresh_world :: world where
  "fresh_world = \<lparr> files = [str ''CHANGELOG.md'' \<mapsto> str ''# Changelog\<newline>''], printed = [] \<rparr>"

definition empty_world :: world where
  "empty_world = \<lparr> files = Map.empty, printed = [] \<rparr>"

definition sample_ctx :: "unit finalContext" where
  "sample_ctx =
     \<lparr> noteGroups = Some [\<lparr>title = str ''BREAKING CHANGES''\<rparr>, \<lparr>title = str ''Features''\<rparr>],
       date = Some (str ''2026-11-01'') \<rparr>"

text \<open>
  A writer that calls the hook: it groups every commit list into the sample context and
  prints the version, the date when there is one, and the titles of the note groups.
\<close>

definition sample_group :: "Context \<Rightarrow> unit \<Rightarrow> sample_commit list \<Rightarrow> unit finalContext" where
  "sample_group ctx opts commits = sample_ctx"

definition sample_template :: "Context \<Rightarrow> unit \<Rightarrow> unit finalContext \<Rightarrow> jsstring stream" where
  "sample_template ctx opts final =
     Ended ((str ''## '' @ version ctx
               @ (case date final of None \<Rightarrow> [] | Some day \<Rightarrow> str '' ('' @ day @ str '')'')
               @ str ''\<newline>'')
            # map (\<lambda>g. str ''### '' @ title g @ str ''\<newline>'')
                (case noteGroups final of None \<Rightarrow> [] | Some groups \<Rightarrow> groups))"

definition dated_deps :: "jsstring option \<Rightarrow> (sample_commit, unit, jsstring, unit, unit) deps" where
  "dated_deps today =
     sample_deps\<lparr>conventionalChangelogWriter :=
       hookedWriter (\<lambda>ctx opts commits. (sample_group ctx opts commits)\<lparr>date := today\<rparr>)
         sample_template\<rparr>"

section \<open>Properties of the matcher\<close>

lemma scan_None:
  "scan r s i n = None \<longleftrightarrow> (\<forall>k. i \<le> k \<and> k \<le> i + n \<longrightarrow> ends r s k = [])"
proof (induction n arbitrary: i)
  case 0
  then show ?case by (auto split: list.splits)
next
  case (Suc n)
  show ?case
  proof (cases "ends r s i")
    case Nil
    have "(\<forall>k. Suc i \<le> k \<and> k \<le> Suc i + n \<longrightarrow> ends r s k = [])
       \<longleftrightarrow> (\<forall>k. i \<le> k \<and> k \<le> i + Suc n \<longrightarrow> ends r s k = [])"
      using Nil by (metis Suc_leI add_Suc add_Suc_right le_eq_less_or_eq le_SucI not_less_eq_eq)
    then show ?thesis using Nil Suc.IH [of "Suc i"] by simp
  next
    case (Cons e es)
    then show ?thesis by force
  qed
qed

lemma scan_Some:
  "scan r s i n = Some (j, e) \<longleftrightarrow>
     i \<le> j \<and> j \<le> i + n \<and> (\<forall>k. i \<le> k \<and> k < j \<longrightarrow> ends r s k = [])
       \<and> ends r s j \<noteq> [] \<and> e = hd (ends r s j)"
proof (induction n arbitrary: i)
  case 0
  then show ?case by (auto split: list.splits)
next
  case (Suc n)
  show ?case
  proof (cases "ends r s i")
    case Nil
    have "(Suc i \<le> j \<and> j \<le> Suc i + n \<and> (\<forall>k. Suc i \<le> k \<and> k < j \<longrightarrow> ends r s k = [])
            \<and> ends r s j \<noteq> [] \<and> e = hd (ends r s j))
       \<longleftrightarrow> (i \<le> j \<and> j \<le> i + Suc n \<and> (\<forall>k. i \<le> k \<and> k < j \<longrightarrow> ends r s k = [])
            \<and> ends r s j \<noteq> [] \<and> e = hd (ends r s j))"
      using Nil by (metis Suc_leD Suc_leI add_Suc add_Suc_right le_eq_less_or_eq)
    then show ?thesis using Nil Suc.IH [of "Suc i"] by simp
  next
    case (Cons e' es)
    show ?thesis
    proof
      assume "scan r s i (Suc n) = Some (j, e)"
      then show "i \<le> j \<and> j \<le> i + Suc n \<and> (\<forall>k. i \<le> k \<and> k < j \<longrightarrow> ends r s k = [])
            \<and> ends r s j \<noteq> [] \<and> e = hd (ends r s j)"
        using Cons by auto
    next
      assume a: "i \<le> j \<and> j \<le> i + Suc n \<and> (\<forall>k. i \<le> k \<and> k < j \<longrightarrow> ends r s k = [])
            \<and> ends r s j \<noteq> [] \<and> e = hd (ends r s j)"
      then have "j = i" using Cons by (metis le_neq_implies_less list.distinct(1) order_refl)
      then show "scan r s i (Suc n) = Some (j, e)" using a Cons by simp
    qed
  qed
qed

lemma exec_None: "exec r s = None \<longleftrightarrow> (\<forall>k \<le> length s. ends r s k = [])"
  by (simp add: exec_def scan_None)

lemma exec_Some:
  "exec r s = Some (j, e) \<longleftrightarrow>
     j \<le> length s \<and> (\<forall>k < j. ends r s k = []) \<and> ends r s j \<noteq> [] \<and> e = hd (ends r s j)"
  by (simp add: exec_def scan_Some)

lemma search_first:
  assumes "j \<le> length s" and "\<forall>k < j. ends r s k = []" and "ends r s j \<noteq> []"
  shows "search s r = int j"
proof -
  have "exec r s = Some (j, hd (ends r s j))" using assms by (simp add: exec_Some)
  then show ?thesis by (simp add: search_def)
qed

lemma search_none:
  assumes "\<forall>k \<le> length s. ends r s k = []"
  shows "search s r = -1"
  using assms by (simp add: search_def exec_None[symmetric])

subsection \<open>The matcher and the words of an expression\<close>

lemma slice_length: "e \<le> length s \<Longrightarrow> length (slice s i e) = e - i"
  by (simp add: slice_def)

lemma slice_append:
  assumes "i \<le> m" and "m \<le> e"
  shows "slice s i e = slice s i m @ slice s m e"
proof -
  have "e - i = (m - i) + (e - m)" using assms by simp
  then have "take (e - i) (drop i s) = take (m - i) (drop i s) @ take (e - m) (drop (m - i) (drop i s))"
    by (simp only: take_add)
  then show ?thesis using assms by (simp add: slice_def)
qed

lemma run_le: "run c s i \<le> length s - i"
  unfolding run_def by (metis length_drop length_takeWhile_le)

lemma run_full: "run c s i = length s - i \<longleftrightarrow> (\<forall>x \<in> set (drop i s). inCls c x)"
proof
  assume "run c s i = length s - i"
  then have "length (takeWhile (inCls c) (drop i s)) = length (drop i s)"
    by (simp add: run_def)
  then have "takeWhile (inCls c) (drop i s) = drop i s"
    by (metis append_eq_conv_conj takeWhile_dropWhile_id take_all order_refl append_Nil2
        length_0_conv length_drop dropWhile_eq_Nil_conv takeWhile_eq_all_conv)
  then show "\<forall>x \<in> set (drop i s). inCls c x"
    by (simp add: takeWhile_eq_all_conv)
next
  assume "\<forall>x \<in> set (drop i s). inCls c x"
  then have "takeWhile (inCls c) (drop i s) = drop i s"
    by (simp add: takeWhile_eq_all_conv)
  then have "length (takeWhile (inCls c) (drop i s)) = length (drop i s)"
    by (rule arg_cong)
  then show "run c s i = length s - i" by (simp only: run_def length_drop)
qed

lemma run_ge:
  "k \<le> length (takeWhile P xs) \<longleftrightarrow> k \<le> length xs \<and> (\<forall>x \<in> set (take k xs). P x)"
proof (induction xs arbitrary: k)
  case Nil
  then show ?case by simp
next
  case (Cons a xs)
  then show ?case by (cases k) auto
qed

lemma ends_Many1_set:
  "e \<in> set (ends (Many1 c) s i) \<longleftrightarrow> i < e \<and> e - i \<le> run c s i"
proof -
  have img: "set (ends (Many1 c) s i) = (\<lambda>k. i + k) ` {1 ..< Suc (run c s i)}"
    by (simp only: ends.simps set_rev set_map set_upt)
  show ?thesis
  proof
    assume "e \<in> set (ends (Many1 c) s i)"
    then obtain k where "k \<in> {1 ..< Suc (run c s i)}" "e = i + k"
      unfolding img by (rule imageE)
    then show "i < e \<and> e - i \<le> run c s i" by simp
  next
    assume a: "i < e \<and> e - i \<le> run c s i"
    then have "e - i \<in> {1 ..< Suc (run c s i)}" "e = i + (e - i)" by auto
    then show "e \<in> set (ends (Many1 c) s i)"
      unfolding img by (rule image_eqI [rotated])
  qed
qed

lemma ends_lang:
  assumes "anchorfree r" and "i \<le> length s"
  shows "e \<in> set (ends r s i) \<longleftrightarrow> i \<le> e \<and> e \<le> length s \<and> slice s i e \<in> lang r"
  using assms
proof (induction r arbitrary: i e)
  case Bol
  then show ?case by simp
next
  case Eoi
  then show ?case by simp
next
  case (One c)
  show ?case
  proof
    assume "e \<in> set (ends (One c) s i)"
    then have "i < length s" "inCls c (s ! i)" "e = Suc i" by (auto split: if_splits)
    moreover from this have "slice s i e = [s ! i]"
      by (simp add: slice_def take_Suc_conv_app_nth hd_drop_conv_nth take_Suc)
    ultimately show "i \<le> e \<and> e \<le> length s \<and> slice s i e \<in> lang (One c)" by simp
  next
    assume a: "i \<le> e \<and> e \<le> length s \<and> slice s i e \<in> lang (One c)"
    then obtain x where x: "slice s i e = [x]" "inCls c x" by auto
    then have "e - i = 1" using a slice_length [of e s i] by simp
    then have e: "e = Suc i" "i < length s" using a by linarith+
    then have "slice s i e = [s ! i]"
      by (simp add: slice_def hd_drop_conv_nth take_Suc)
    then show "e \<in> set (ends (One c) s i)" using x e by simp
  qed
next
  case (Many1 c)
  have "e \<in> set (ends (Many1 c) s i) \<longleftrightarrow> i < e \<and> e - i \<le> run c s i"
    by (rule ends_Many1_set)
  also have "\<dots> \<longleftrightarrow> i < e \<and> e - i \<le> length (drop i s)
       \<and> (\<forall>x \<in> set (take (e - i) (drop i s)). inCls c x)"
    by (simp only: run_def run_ge)
  also have "\<dots> \<longleftrightarrow> i \<le> e \<and> e \<le> length s \<and> slice s i e \<in> lang (Many1 c)"
    using Many1.prems(2) by (auto simp: slice_def)
  finally show ?case .
next
  case (Opt1 c)
  show ?case
  proof
    assume "e \<in> set (ends (Opt1 c) s i)"
    then consider "e = i" | "i < length s" "inCls c (s ! i)" "e = Suc i"
      by (auto split: if_splits)
    then show "i \<le> e \<and> e \<le> length s \<and> slice s i e \<in> lang (Opt1 c)"
    proof cases
      case 1
      then show ?thesis using Opt1.prems(2) by (simp add: slice_def)
    next
      case 2
      then have "slice s i e = [s ! i]"
        by (simp add: slice_def hd_drop_conv_nth take_Suc)
      then show ?thesis using 2 by simp
    qed
  next
    assume a: "i \<le> e \<and> e \<le> length s \<and> slice s i e \<in> lang (Opt1 c)"
    then consider "slice s i e = []" | x where "slice s i e = [x]" "inCls c x" by auto
    then show "e \<in> set (ends (Opt1 c) s i)"
    proof cases
      case 1
      then have "e = i" using a slice_length [of e s i] by simp
      then show ?thesis by simp
    next
      case 2
      then have "e - i = 1" using a slice_length [of e s i] by simp
      then have e: "e = Suc i" "i < length s" using a by linarith+
      then have "slice s i e = [s ! i]"
        by (simp add: slice_def hd_drop_conv_nth take_Suc)
      then show ?thesis using 2 e by simp
    qed
  qed
next
  case (Lit w)
  show ?case
  proof
    assume "e \<in> set (ends (Lit w) s i)"
    then have t: "take (length w) (drop i s) = w" and e: "e = i + length w"
      by (auto split: if_splits)
    have "length (take (length w) (drop i s)) = length w" by (simp only: t)
    then have "min (length w) (length s - i) = length w"
      by (simp only: length_take length_drop)
    then have "length w \<le> length s - i" by (simp add: min_def split: if_splits)
    then show "i \<le> e \<and> e \<le> length s \<and> slice s i e \<in> lang (Lit w)"
      using t e Lit.prems(2) by (simp add: slice_def)
  next
    assume a: "i \<le> e \<and> e \<le> length s \<and> slice s i e \<in> lang (Lit w)"
    then have w: "slice s i e = w" by simp
    then have "length w = e - i" using a slice_length [of e s i] by simp
    then show "e \<in> set (ends (Lit w) s i)" using a w by (simp add: slice_def)
  qed
next
  case (Cat a b)
  have af: "anchorfree a" "anchorfree b" using Cat.prems(1) by simp_all
  show ?case
  proof
    assume "e \<in> set (ends (Cat a b) s i)"
    then obtain m where m: "m \<in> set (ends a s i)" "e \<in> set (ends b s m)" by auto
    from m(1) have 1: "i \<le> m" "m \<le> length s" "slice s i m \<in> lang a"
      using Cat.IH(1) [OF af(1) Cat.prems(2)] by simp_all
    from m(2) have 2: "m \<le> e" "e \<le> length s" "slice s m e \<in> lang b"
      using Cat.IH(2) [OF af(2) 1(2)] by simp_all
    have "slice s i e = slice s i m @ slice s m e" by (rule slice_append [OF 1(1) 2(1)])
    then show "i \<le> e \<and> e \<le> length s \<and> slice s i e \<in> lang (Cat a b)"
      using 1 2 by auto
  next
    assume h: "i \<le> e \<and> e \<le> length s \<and> slice s i e \<in> lang (Cat a b)"
    then obtain u v where uv: "slice s i e = u @ v" "u \<in> lang a" "v \<in> lang b" by auto
    define m where "m = i + length u"
    have len: "length u + length v = e - i"
      using uv(1) h slice_length [of e s i] by (metis length_append)
    have ie: "i \<le> e" "e \<le> length s" using h by simp_all
    have im: "i \<le> m" "m \<le> e" using len ie unfolding m_def by linarith+
    have "slice s i e = slice s i m @ slice s m e" by (rule slice_append [OF im])
    moreover have "length (slice s i m) = length u"
      using im h by (simp add: slice_length m_def)
    ultimately have "slice s i m = u" "slice s m e = v" using uv(1) by auto
    then have "m \<in> set (ends a s i)" "e \<in> set (ends b s m)"
      using Cat.IH(1) [OF af(1) Cat.prems(2), of m] Cat.IH(2) [OF af(2), of m e] uv im h
      by simp_all
    then show "e \<in> set (ends (Cat a b) s i)" by auto
  qed
next
  case (Or a b)
  then show ?case by auto
qed

lemma ends_nonempty_lang:
  assumes "anchorfree r" and "i \<le> length s"
  shows "ends r s i \<noteq> [] \<longleftrightarrow> (\<exists>w rest. drop i s = w @ rest \<and> w \<in> lang r)"
proof
  assume "ends r s i \<noteq> []"
  then obtain e where "e \<in> set (ends r s i)" by (cases "ends r s i") auto
  then have e: "i \<le> e" "e \<le> length s" "slice s i e \<in> lang r"
    using ends_lang [OF assms] by simp_all
  have "drop i s = slice s i e @ drop (e - i) (drop i s)"
    unfolding slice_def by (rule append_take_drop_id [symmetric])
  then show "\<exists>w rest. drop i s = w @ rest \<and> w \<in> lang r" using e(3) by blast
next
  assume "\<exists>w rest. drop i s = w @ rest \<and> w \<in> lang r"
  then obtain w rest where w: "drop i s = w @ rest" "w \<in> lang r" by blast
  have "length (drop i s) = length w + length rest" by (simp add: w(1))
  then have le: "i + length w \<le> length s" using assms(2) by simp
  have "slice s i (i + length w) = w" by (simp add: slice_def w(1))
  then have "i + length w \<in> set (ends r s i)"
    using ends_lang [OF assms, of "i + length w"] le w(2) by simp
  then show "ends r s i \<noteq> []" by auto
qed

lemma in_lang_Cat: "w \<in> lang (Cat a b) \<longleftrightarrow> (\<exists>u v. w = u @ v \<and> u \<in> lang a \<and> v \<in> lang b)"
  by auto

lemma in_lang_One: "w \<in> lang (One (Single c)) \<longleftrightarrow> w = [c]"
  by auto

lemma in_lang_Opt1: "w \<in> lang (Opt1 (Single c)) \<longleftrightarrow> w = [] \<or> w = [c]"
  by auto

lemma lang_CatI: "u \<in> lang a \<Longrightarrow> v \<in> lang b \<Longrightarrow> u @ v \<in> lang (Cat a b)"
  by auto

lemma lang_OneI: "[c] \<in> lang (One (Single c))"
  by simp

lemma lang_Opt1I: "x = [] \<or> x = [c] \<Longrightarrow> x \<in> lang (Opt1 (Single c))"
  by auto

lemma lang_seq8:
  "w \<in> lang (seq [Many1 a, One (Single b), Opt1 (Single c), Many1 d, One (Single e),
                    Many1 f, One (Single g), Many1 h])
   \<longleftrightarrow> (\<exists>x1 x3 x4 x6 x8. w = x1 @ [b] @ x3 @ x4 @ [e] @ x6 @ [g] @ x8
          \<and> x1 \<in> lang (Many1 a) \<and> (x3 = [] \<or> x3 = [c]) \<and> x4 \<in> lang (Many1 d)
          \<and> x6 \<in> lang (Many1 f) \<and> x8 \<in> lang (Many1 h))"
proof
  assume "w \<in> lang (seq [Many1 a, One (Single b), Opt1 (Single c), Many1 d, One (Single e),
                    Many1 f, One (Single g), Many1 h])"
  then show "\<exists>x1 x3 x4 x6 x8. w = x1 @ [b] @ x3 @ x4 @ [e] @ x6 @ [g] @ x8
          \<and> x1 \<in> lang (Many1 a) \<and> (x3 = [] \<or> x3 = [c]) \<and> x4 \<in> lang (Many1 d)
          \<and> x6 \<in> lang (Many1 f) \<and> x8 \<in> lang (Many1 h)"
    apply (simp only: seq.simps in_lang_Cat in_lang_One in_lang_Opt1)
    apply (elim exE conjE)
    apply (simp only: append_assoc)
    apply blast
    done
next
  assume "\<exists>x1 x3 x4 x6 x8. w = x1 @ [b] @ x3 @ x4 @ [e] @ x6 @ [g] @ x8
          \<and> x1 \<in> lang (Many1 a) \<and> (x3 = [] \<or> x3 = [c]) \<and> x4 \<in> lang (Many1 d)
          \<and> x6 \<in> lang (Many1 f) \<and> x8 \<in> lang (Many1 h)"
  then obtain x1 x3 x4 x6 x8 where w: "w = x1 @ [b] @ x3 @ x4 @ [e] @ x6 @ [g] @ x8"
    and x: "x1 \<in> lang (Many1 a)" "x3 = [] \<or> x3 = [c]" "x4 \<in> lang (Many1 d)"
      "x6 \<in> lang (Many1 f)" "x8 \<in> lang (Many1 h)"
    by blast
  show "w \<in> lang (seq [Many1 a, One (Single b), Opt1 (Single c), Many1 d, One (Single e),
                    Many1 f, One (Single g), Many1 h])"
    unfolding w seq.simps
    by (intro lang_CatI lang_OneI lang_Opt1I x)
qed

lemma heading_lang:
  "w \<in> lang (seq [Many1 (Single (of_char CHR ''#'')), One (Single (of_char CHR '' '')),
              Opt1 (Single (of_char CHR ''['')),
              Many1 (Range (of_char CHR ''0'') (of_char CHR ''9'')), One (Single (of_char CHR ''.'')),
              Many1 (Range (of_char CHR ''0'') (of_char CHR ''9'')), One (Single (of_char CHR ''.'')),
              Many1 (Range (of_char CHR ''0'') (of_char CHR ''9''))])
   \<longleftrightarrow> releaseHeading w"
  unfolding lang_seq8 releaseHeading_def digits_def by (simp add: str_def)

lemma ends_Lit_nonempty: "ends (Lit a) s i \<noteq> [] \<longleftrightarrow> (\<exists>rest. drop i s = a @ rest)"
proof -
  have "take (length a) (drop i s) = a \<longleftrightarrow> (\<exists>rest. drop i s = a @ rest)"
    by (metis append_eq_conv_conj)
  then show ?thesis by simp
qed

lemma START_matches:
  assumes "i \<le> length s"
  shows "ends START_OF_LAST_RELEASE_PATTERN s i \<noteq> [] \<longleftrightarrow> releaseStartsAt s i"
proof -
  let ?H = "seq [Many1 (Single (of_char CHR ''#'')), One (Single (of_char CHR '' '')),
              Opt1 (Single (of_char CHR ''['')),
              Many1 (Range (of_char CHR ''0'') (of_char CHR ''9'')), One (Single (of_char CHR ''.'')),
              Many1 (Range (of_char CHR ''0'') (of_char CHR ''9'')), One (Single (of_char CHR ''.'')),
              Many1 (Range (of_char CHR ''0'') (of_char CHR ''9''))]"
  have af: "anchorfree ?H" by simp
  have e: "ends START_OF_LAST_RELEASE_PATTERN s i
      = (if i = 0 \<or> isLineTerminator (s ! (i - 1)) then ends ?H s i else [])
        @ ends (Lit (str ''<a name='')) s i"
    unfolding START_OF_LAST_RELEASE_PATTERN_def seq.simps(3) [of Bol] ends.simps(8) ends.simps(7)
      ends.simps(1)
    by simp
  have h: "ends ?H s i \<noteq> [] \<longleftrightarrow> (\<exists>h rest. drop i s = h @ rest \<and> releaseHeading h)"
    unfolding ends_nonempty_lang [OF af assms] heading_lang ..
  have "ends START_OF_LAST_RELEASE_PATTERN s i \<noteq> [] \<longleftrightarrow>
      ((i = 0 \<or> isLineTerminator (s ! (i - 1))) \<and> ends ?H s i \<noteq> [])
      \<or> ends (Lit (str ''<a name='')) s i \<noteq> []"
    unfolding e by (simp only: append_is_Nil_conv split: if_split) blast
  then show ?thesis
    unfolding releaseStartsAt_def h ends_Lit_nonempty .
qed

subsection \<open>Trailing newlines\<close>

lemma concat_select: "concat (map (\<lambda>e. if e = L then [e] else []) xs) = filter (\<lambda>e. e = L) xs"
  by (induction xs) auto

lemma filter_shift:
  "filter (\<lambda>e. e = L) (map (\<lambda>k. i + k) [1 ..< Suc n]) = (if i < L \<and> L \<le> i + n then [L] else [])"
  by (induction n) auto

lemma ends_TRAILING_NEWLINES:
  "ends TRAILING_NEWLINES s i =
     (if i < length s \<and> (\<forall>c \<in> set (drop i s). c = 10) then [length s] else [])"
proof -
  have eoi: "ends Eoi s = (\<lambda>e. if e = length s then [e] else [])"
    by (rule ext) simp
  have "ends TRAILING_NEWLINES s i
      = concat (map (ends Eoi s) (rev (map (\<lambda>k. i + k) [1 ..< Suc (run (Single 10) s i)])))"
    by (simp only: TRAILING_NEWLINES_def ends.simps)
  also have "\<dots>
      = rev (filter (\<lambda>e. e = length s) (map (\<lambda>k. i + k) [1 ..< Suc (run (Single 10) s i)]))"
    by (simp only: eoi concat_select rev_filter)
  also have "\<dots> = (if i < length s \<and> length s \<le> i + run (Single 10) s i then [length s] else [])"
    unfolding filter_shift by simp
  also have "\<dots> = (if i < length s \<and> (\<forall>c \<in> set (drop i s). c = 10) then [length s] else [])"
  proof (cases "i < length s")
    case True
    have "length s \<le> i + run (Single 10) s i \<longleftrightarrow> run (Single 10) s i = length s - i"
      using run_le [of "Single 10" s i] True by linarith
    then show ?thesis using run_full [of "Single 10" s i] by simp
  next
    case False
    then show ?thesis by simp
  qed
  finally show ?thesis .
qed

lemma exec_TRAILING_Some:
  assumes "t = [] \<or> last t \<noteq> 10" and "nl \<noteq> []" and "\<forall>c \<in> set nl. c = 10"
  shows "exec TRAILING_NEWLINES (t @ nl) = Some (length t, length (t @ nl))"
proof -
  have "ends TRAILING_NEWLINES (t @ nl) k = []" if "k < length t" for k
  proof -
    have "last t \<in> set (drop k (t @ nl))"
      using that by (metis drop_append last_drop last_in_set append_is_Nil_conv drop_eq_Nil
          not_le UnCI set_append diff_is_0_eq less_imp_le drop0 length_greater_0_conv 
          less_nat_zero_code list.size(3))
    moreover have "last t \<noteq> 10" using assms(1) that by auto
    ultimately show ?thesis by (auto simp: ends_TRAILING_NEWLINES)
  qed
  moreover have "ends TRAILING_NEWLINES (t @ nl) (length t) = [length (t @ nl)]"
    using assms by (auto simp: ends_TRAILING_NEWLINES)
  ultimately show ?thesis
    unfolding exec_def scan_Some by simp
qed

lemma exec_TRAILING_None:
  assumes "s = [] \<or> last s \<noteq> 10"
  shows "exec TRAILING_NEWLINES s = None"
proof -
  have "ends TRAILING_NEWLINES s k = []" for k
  proof (cases "k < length s")
    case True
    then have "last s \<in> set (drop k s)"
      by (metis last_drop last_in_set drop_eq_Nil not_le)
    moreover have "last s \<noteq> 10" using assms True by auto
    ultimately show ?thesis by (auto simp: ends_TRAILING_NEWLINES)
  next
    case False
    then show ?thesis by (simp add: ends_TRAILING_NEWLINES)
  qed
  then show ?thesis unfolding exec_def scan_None by simp
qed

lemma strip_split:
  "s = stripNewlines s @ rev (takeWhile (\<lambda>c. c = 10) (rev s))"
  unfolding stripNewlines_def
  by (metis rev_append rev_rev_ident takeWhile_dropWhile_id)

lemma strip_last: "stripNewlines s = [] \<or> last (stripNewlines s) \<noteq> 10"
proof (cases "dropWhile (\<lambda>c. c = 10) (rev s)")
  case Nil
  then show ?thesis by (simp add: stripNewlines_def)
next
  case (Cons a as)
  then have "a \<noteq> 10" by (simp add: dropWhile_eq_Cons_conv)
  then show ?thesis unfolding stripNewlines_def Cons by simp
qed

lemma replace_TRAILING_NEWLINES:
  "replace s TRAILING_NEWLINES (str ''\<newline>'') =
     (if s \<noteq> [] \<and> last s = 10 then stripNewlines s @ str ''\<newline>'' else s)"
proof (cases "s \<noteq> [] \<and> last s = 10")
  case True
  let ?nl = "rev (takeWhile (\<lambda>c. c = 10) (rev s))"
  have nl: "?nl \<noteq> []" using True by (cases "rev s") (auto simp: last_rev)
  have all: "\<forall>c \<in> set ?nl. c = 10" by (auto dest: set_takeWhileD)
  have "exec TRAILING_NEWLINES (stripNewlines s @ ?nl)
      = Some (length (stripNewlines s), length (stripNewlines s @ ?nl))"
    by (rule exec_TRAILING_Some [OF strip_last nl all])
  then have "exec TRAILING_NEWLINES s = Some (length (stripNewlines s), length s)"
    using strip_split [of s] by simp
  moreover have "take (length (stripNewlines s)) s = stripNewlines s"
    by (metis append_eq_conv_conj strip_split)
  ultimately show ?thesis using True by (simp add: replace_def)
next
  case False
  then have "exec TRAILING_NEWLINES s = None" by (intro exec_TRAILING_None) auto
  then show ?thesis using False by (auto simp: replace_def)
qed

lemma collapse_idem: "collapseTrailingNewlines (collapseTrailingNewlines m) = collapseTrailingNewlines m"
proof (cases "m \<noteq> [] \<and> last m = 10")
  case True
  have "stripNewlines (stripNewlines m @ [10]) = stripNewlines m"
    using strip_last [of m]
    by (auto simp: stripNewlines_def dropWhile_append3 dropWhile_eq_Cons_conv
        split: list.splits) 
  then show ?thesis using True by (simp add: collapseTrailingNewlines_def str_def)
next
  case False
  then show ?thesis by (auto simp: collapseTrailingNewlines_def)
qed

lemma collapse_append:
  assumes "\<exists>c \<in> set b. c \<noteq> 10"
  shows "collapseTrailingNewlines (a @ b) = a @ collapseTrailingNewlines b"
proof -
  from assms obtain c where c: "c \<in> set (rev b)" "\<not> (c = 10)" by auto
  have "dropWhile (\<lambda>c. c = 10) (rev b @ rev a) = dropWhile (\<lambda>c. c = 10) (rev b) @ rev a"
    using c by (rule dropWhile_append1 [where P = "\<lambda>c. c = 10"])
  then have s: "stripNewlines (a @ b) = a @ stripNewlines b"
    by (simp add: stripNewlines_def)
  have "b \<noteq> []" using assms by auto
  then have "last (a @ b) = last b" by simp
  then show ?thesis using \<open>b \<noteq> []\<close> by (simp add: collapseTrailingNewlines_def s)
qed

lemma strip_nonempty:
  assumes "\<exists>c \<in> set m. c \<noteq> 10"
  shows "stripNewlines m \<noteq> []"
  using assms by (auto simp: stripNewlines_def dropWhile_eq_Nil_conv)

lemma collapse_one_newline:
  assumes "\<exists>c \<in> set m. c \<noteq> 10" and "last m = 10"
  shows "\<exists>t. header @ str ''\<newline>'' @ collapseTrailingNewlines m = t @ [10]
           \<and> t \<noteq> [] \<and> last t \<noteq> 10"
proof -
  have ne: "m \<noteq> []" using assms(1) by auto
  have s: "stripNewlines m \<noteq> []" by (rule strip_nonempty [OF assms(1)])
  then have l: "last (stripNewlines m) \<noteq> 10" using strip_last [of m] by simp
  have "header @ str ''\<newline>'' @ collapseTrailingNewlines m
      = (header @ str ''\<newline>'' @ stripNewlines m) @ [10]"
    using ne assms(2) by (simp add: collapseTrailingNewlines_def str_def)
  moreover have "last (header @ str ''\<newline>'' @ stripNewlines m) \<noteq> 10"
    using s l by simp
  ultimately show ?thesis using s by blast
qed

subsection \<open>The old content\<close>

lemma changelog_oldContent_first:
  assumes "j \<le> length s" and "\<forall>k < j. ends START_OF_LAST_RELEASE_PATTERN s k = []"
    and "ends START_OF_LAST_RELEASE_PATTERN s j \<noteq> []"
  shows "changelog_oldContent s = drop j s"
  using search_first [OF assms] by (simp add: changelog_oldContent_def substring_def)

lemma changelog_oldContent_none:
  assumes "\<forall>k \<le> length s. ends START_OF_LAST_RELEASE_PATTERN s k = []"
  shows "changelog_oldContent s = s"
  using search_none [OF assms] by (simp add: changelog_oldContent_def)

lemma changelog_oldContent_Nil: "changelog_oldContent [] = []"
  by (simp add: changelog_oldContent_def substring_def Let_def)

lemma unreleased_before:
  assumes "k < 14"
  shows "ends START_OF_LAST_RELEASE_PATTERN (unreleased @ rest) k = []"
proof -
  consider "k = 0" | "k = 1" | "k = 2" | "k = 3" | "k = 4" | "k = 5" | "k = 6" | "k = 7"
    | "k = 8" | "k = 9" | "k = 10" | "k = 11" | "k = 12" | "k = 13"
    using assms by atomize_elim arith
  then show ?thesis
    by cases (simp_all add: unreleased_def str_def START_OF_LAST_RELEASE_PATTERN_def
        isLineTerminator_def run_def)
qed

lemma unreleased_at:
  "ends START_OF_LAST_RELEASE_PATTERN (unreleased @ rest) 14 \<noteq> []"
  by (simp add: unreleased_def str_def START_OF_LAST_RELEASE_PATTERN_def
      isLineTerminator_def run_def)

lemma changelog_oldContent_unreleased:
  "changelog_oldContent (unreleased @ rest) = str ''## [1.2.0]'' @ rest"
proof -
  have "changelog_oldContent (unreleased @ rest) = drop 14 (unreleased @ rest)"
    by (rule changelog_oldContent_first)
      (simp_all add: unreleased_before unreleased_at, simp add: unreleased_def str_def)
  then show ?thesis by (simp add: unreleased_def str_def)
qed

lemma fresh_no_release:
  assumes "k \<le> 12"
  shows "ends START_OF_LAST_RELEASE_PATTERN (str ''# Changelog\<newline>'') k = []"
proof -
  consider "k = 0" | "k = 1" | "k = 2" | "k = 3" | "k = 4" | "k = 5" | "k = 6" | "k = 7"
    | "k = 8" | "k = 9" | "k = 10" | "k = 11" | "k = 12"
    using assms by atomize_elim arith
  then show ?thesis
    by cases (simp_all add: str_def START_OF_LAST_RELEASE_PATTERN_def isLineTerminator_def run_def)
qed

section \<open>Properties of \<open>changelog\<close>\<close>

lemma foldl_append_concat: "foldl (@) acc chunks = acc @ concat chunks"
  by (induction chunks arbitrary: acc) auto

lemma changelog_start_eq:
  "changelog_start args w = (Inr (oldContentOf args w), createChangelogIfMissing args w)"
  by (auto simp: changelog_start_def createChangelogIfMissing_def existsSync_def writeFile_def
      notify_def readFileSync_def Let_def changelog_oldContent_Nil oldContentOf_def
      split: sum.splits option.splits)

lemma createChangelogIfMissing_files:
  "files (createChangelogIfMissing args w) =
     (if truthy (dryRun args) \<or> files w (changelogFile args) \<noteq> None then files w
      else (files w)(changelogFile args \<mapsto> str ''\<newline>''))"
  by (auto simp: createChangelogIfMissing_def existsSync_def writeFile_def notify_def)

lemma changelog_eq:
  "changelog d args currentVersion newVersion commits w =
     changelog_finish d args currentVersion newVersion commits (oldContentOf args w)
       (createChangelogIfMissing args w)"
  by (simp add: changelog_def changelog_start_eq)

lemma changelog_finish_result:
  "fst (changelog_finish d args currentVersion newVersion commits oldContent w)
     = rendering d args currentVersion newVersion commits"
  by (simp add: changelog_finish_def rendering_def changelogStream_def Let_def
      foldl_append_concat split: sum.splits stream.splits)

lemma changelog_finish_files:
  "files (snd (changelog_finish d args currentVersion newVersion commits oldContent w)) =
     (case rendering d args currentVersion newVersion commits of
        Inl e \<Rightarrow> files w
      | Inr content \<Rightarrow>
          if truthy (dryRun args) then files w
          else (files w)(changelogFile args \<mapsto> merged args content oldContent))"
  by (simp add: changelog_finish_def rendering_def changelogStream_def Let_def
      foldl_append_concat writeFile_def notify_def debug_def split: sum.splits stream.splits)

lemma changelog_result:
  "fst (changelog d args currentVersion newVersion commits w)
     = rendering d args currentVersion newVersion commits"
  by (simp add: changelog_eq changelog_finish_result)

lemma changelog_files:
  "files (snd (changelog d args currentVersion newVersion commits w)) =
     (if truthy (dryRun args) then files w
      else (case rendering d args currentVersion newVersion commits of
              Inl e \<Rightarrow> (if files w (changelogFile args) \<noteq> None then files w
                        else (files w)(changelogFile args \<mapsto> str ''\<newline>''))
            | Inr content \<Rightarrow>
                (files w)(changelogFile args \<mapsto> merged args content (oldContentOf args w))))"
  by (auto simp: changelog_eq changelog_finish_files createChangelogIfMissing_files
      split: sum.splits)

lemma finalizeContext_cong:
  "includeDateInChangelog a = includeDateInChangelog b \<Longrightarrow> finalizeContext a = finalizeContext b"
  by (rule ext) (simp add: finalizeContext_def)

lemma rendering_cong:
  assumes "includeDateInChangelog a = includeDateInChangelog b"
  shows "rendering d a currentVersion newVersion commits
       = rendering d b currentVersion newVersion commits"
  unfolding rendering_def finalizeContext_cong [OF assms] by (rule refl)

lemma rendering_pkgArgs:
  "rendering d (pkgArgs d args pkg) currentVersion newVersion commits
     = rendering d args currentVersion newVersion commits"
  by (rule rendering_cong) (simp add: pkgArgs_def)

lemma rendering_Inl: "rendering d args c n commits = Inl e \<Longrightarrow> \<exists>x. e = Rejected x"
  by (auto simp: rendering_def split: sum.splits stream.splits)

lemma changelog_treatment:
  "changelog d (args\<lparr>experimentalChangesTreatment := t\<rparr>) c n cs w = changelog d args c n cs w"
proof -
  let ?args = "args\<lparr>experimentalChangesTreatment := t\<rparr>"
  have fc: "finalizeContext ?args = (finalizeContext args :: ('d, 'e) finalContext_scheme \<Rightarrow> _)"
    by (rule finalizeContext_cong) simp
  have a: "oldContentOf ?args = oldContentOf args"
    by (rule ext) (simp add: oldContentOf_def)
  have b: "createChangelogIfMissing ?args = createChangelogIfMissing args"
    by (rule ext) (simp add: createChangelogIfMissing_def notify_def writeFile_def)
  have c: "notify ?args = notify args" by (intro ext) (simp add: notify_def)
  have e: "debug ?args = debug args" by (intro ext) (simp add: debug_def)
  have f: "writeFile ?args = writeFile args" by (intro ext) (simp add: writeFile_def)
  have g: "merged ?args = merged args" by (intro ext) (simp add: merged_def)
  have h: "changelogFile ?args = changelogFile args" "dryRun ?args = dryRun args" by simp_all
  show ?thesis
    unfolding changelog_eq changelog_finish_def changelogStream_def fc a b c e f g h
    by (rule refl)
qed

lemma finalizeContext_date:
  assumes "includeDateInChangelog args = Some False"
  shows "finalizeContext args (ctx\<lparr>date := today\<rparr>) = finalizeContext args (ctx\<lparr>date := None\<rparr>)"
  using assms by (cases "noteGroups ctx") (simp_all add: finalizeContext_def)

lemma changelog_unfolded:
  "fst (changelog d args currentVersion newVersion commits w) =
     (case conventionalChangelogPresetLoader d (str ''conventional-changelog-conventionalcommits'') of
        Inl x \<Rightarrow> Inl (Rejected x)
      | Inr presetConfig \<Rightarrow>
          (case conventionalChangelogWriter d (mkContext currentVersion newVersion) presetConfig
                  (finalizeContext args) commits of
             Errored chunks err \<Rightarrow> Inl (Rejected err)
           | Ended chunks \<Rightarrow> Inr (concat chunks)))"
  unfolding changelog_result rendering_def by (rule refl)

lemma changelog_writer_cong:
  assumes "conventionalChangelogPresetLoader d1 = conventionalChangelogPresetLoader d2"
    and "\<And>presetConfig.
           conventionalChangelogWriter d1 (mkContext currentVersion newVersion) presetConfig
             (finalizeContext args) commits
         = conventionalChangelogWriter d2 (mkContext currentVersion newVersion) presetConfig
             (finalizeContext args) commits"
  shows "changelog d1 args currentVersion newVersion commits w
       = changelog d2 args currentVersion newVersion commits w"
  unfolding changelog_eq changelog_finish_def changelogStream_def assms ..

section \<open>Properties of \<open>writeChangelogs\<close>\<close>

lemma lift_result:
  "fst (case r of (Inl e, w1) \<Rightarrow> (Inl e, w1)
        | (Inr contents, w1) \<Rightarrow> (Inr (f contents), w1)) = map_sum id f (fst r)"
  by (simp split: prod.splits sum.splits)

lemma writeChangelogs_include:
  assumes "\<not> skipsChangelog args"
    and "experimentalChangesTreatment args = None
       \<or> experimentalChangesTreatment args = Some (str ''include'')"
  shows "fst (writeChangelogs d sched args currentVersion newVersion commits packages w) =
     map_sum id (\<lambda>contents. [\<lparr>filePath = changelogFile args, fileContents = contents\<rparr>])
       (rendering d args (stableVersion currentVersion) (stableVersion newVersion) commits)"
proof -
  have "writeChangelogs d sched args currentVersion newVersion commits packages w =
     (case changelog d args (stableVersion currentVersion) (stableVersion newVersion) commits w of
        (Inl e, w1) \<Rightarrow> (Inl e, w1)
      | (Inr contents, w1) \<Rightarrow>
          (Inr [\<lparr>filePath = changelogFile args, fileContents = contents\<rparr>], w1))"
    using assms by (auto simp: writeChangelogs_def Let_def)
  then show ?thesis by (simp only: lift_result changelog_result)
qed

lemma writeChangelogs_strip:
  assumes "\<not> skipsChangelog args"
    and "experimentalChangesTreatment args = Some (str ''strip'')"
  shows "fst (writeChangelogs d sched args currentVersion newVersion commits packages w) =
     map_sum id (\<lambda>contents. [\<lparr>filePath = changelogFile args, fileContents = contents\<rparr>])
       (rendering d args (stableVersion currentVersion) (stableVersion newVersion)
          (filterCommits d commits
             \<lparr>excludePackages = Some (map simplifiedName (filter unstable packages)),
              includePackages = None\<rparr>))"
proof -
  have "str ''strip'' \<noteq> str ''include''" by (simp add: str_def)
  then have "writeChangelogs d sched args currentVersion newVersion commits packages w =
     (case changelog d args (stableVersion currentVersion) (stableVersion newVersion)
             (filterCommits d commits
               \<lparr>excludePackages = Some (map simplifiedName (filter unstable packages)),
                includePackages = None\<rparr>) w of
        (Inl e, w1) \<Rightarrow> (Inl e, w1)
      | (Inr contents, w1) \<Rightarrow>
          (Inr [\<lparr>filePath = changelogFile args, fileContents = contents\<rparr>], w1))"
    using assms by (simp add: writeChangelogs_def Let_def)
  then show ?thesis by (simp only: lift_result changelog_result)
qed

lemma writeChangelogs_separate:
  assumes "\<not> skipsChangelog args"
    and "experimentalChangesTreatment args = Some (str ''separate'')"
  shows "writeChangelogs d sched args currentVersion newVersion commits packages w =
     (if falsy (alphaVersion currentVersion) \<or> falsy (alphaVersion newVersion) then
        (Inl (Error (str ''unable to create \"separate\" changelogs without alpha package versions'')), w)
      else separate d sched args
             (the (alphaVersion currentVersion)) (the (alphaVersion newVersion))
             (stableVersion currentVersion) (stableVersion newVersion)
             commits (filter unstable packages)
             (filterCommits d commits
                \<lparr>excludePackages = Some (map simplifiedName (filter unstable packages)),
                 includePackages = None\<rparr>) w)"
proof -
  have "str ''separate'' \<noteq> str ''include''" "str ''separate'' \<noteq> str ''strip''"
    by (simp_all add: str_def)
  then show ?thesis using assms by (simp add: writeChangelogs_def Let_def)
qed

lemma writeChangelogs_unsupported:
  assumes "\<not> skipsChangelog args"
    and "experimentalChangesTreatment args = Some t"
    and "t \<noteq> str ''include''" and "t \<noteq> str ''strip''" and "t \<noteq> str ''separate''"
  shows "writeChangelogs d sched args currentVersion newVersion commits packages w =
     (Inl (Error (str ''unsupported experimentalChanges type: '' @ t)), w)"
  using assms by (simp add: writeChangelogs_def Let_def toString_def)

lemma forEach_start_eq:
  "forEach_start d args currentAlpha newAlpha commits pkg w =
     (\<lparr>call_args = pkgArgs d args pkg, call_currentVersion = currentAlpha,
       call_newVersion = newAlpha, call_commits = pkgCommits d commits pkg,
       call_oldContent = Inr (oldContentOf (pkgArgs d args pkg) w)\<rparr>,
      createChangelogIfMissing (pkgArgs d args pkg) w)"
  by (simp add: forEach_start_def Let_def changelog_start_eq pkgArgs_def pkgCommits_def)

lemma forEach_starts_Cons:
  "fst (forEach_starts d args currentAlpha newAlpha commits (pkg # pkgs) w) =
     \<lparr>call_args = pkgArgs d args pkg, call_currentVersion = currentAlpha,
      call_newVersion = newAlpha, call_commits = pkgCommits d commits pkg,
      call_oldContent = Inr (oldContentOf (pkgArgs d args pkg) w)\<rparr>
     # fst (forEach_starts d args currentAlpha newAlpha commits pkgs
              (createChangelogIfMissing (pkgArgs d args pkg) w))"
  by (simp add: forEach_start_eq case_prod_beta)

lemma forEach_starts_length:
  "length (fst (forEach_starts d args currentAlpha newAlpha commits pkgs w)) = length pkgs"
  by (induction pkgs arbitrary: w) (simp_all add: forEach_starts_Cons del: forEach_starts.simps(2))

lemma forEach_starts_nth:
  assumes "i < length pkgs"
  shows "\<exists>old. fst (forEach_starts d args currentAlpha newAlpha commits pkgs w) ! i =
     \<lparr>call_args = pkgArgs d args (pkgs ! i), call_currentVersion = currentAlpha,
      call_newVersion = newAlpha, call_commits = pkgCommits d commits (pkgs ! i),
      call_oldContent = Inr old\<rparr>"
  using assms
proof (induction pkgs arbitrary: w i)
  case Nil
  then show ?case by simp
next
  case (Cons pkg pkgs)
  show ?case
  proof (cases i)
    case 0
    then show ?thesis by (simp add: forEach_starts_Cons del: forEach_starts.simps(2))
  next
    case (Suc k)
    then have "k < length pkgs" using Cons.prems by simp
    from Cons.IH [OF this, of "createChangelogIfMissing (pkgArgs d args pkg) w"]
    show ?thesis using Suc by (simp add: forEach_starts_Cons del: forEach_starts.simps(2))
  qed
qed

lemma forEach_finish_result:
  assumes "call_oldContent c = Inr old"
  shows "fst (forEach_finish d c rs w) = rs @ pushed d c"
proof -
  let ?f = "changelog_finish d (call_args c) (call_currentVersion c) (call_newVersion c)
              (call_commits c) old w"
  have "fst ?f = rendering d (call_args c) (call_currentVersion c) (call_newVersion c) (call_commits c)"
    by (rule changelog_finish_result)
  then show ?thesis using assms
    by (cases ?f) (auto simp: forEach_finish_def pushed_def split: sum.splits)
qed

lemma completions_result:
  assumes "\<forall>i < length calls. \<exists>old. call_oldContent (calls ! i) = Inr old"
  shows "fst (completions d calls sched finished rs w)
       = rs @ concat (map (\<lambda>i. pushed d (calls ! i)) (effective (length calls) sched finished))"
proof (induction sched arbitrary: finished rs w)
  case Nil
  then show ?case by simp
next
  case (Cons i sched)
  show ?case
  proof (cases "i < length calls \<and> i \<notin> set finished")
    case True
    then obtain old where old: "call_oldContent (calls ! i) = Inr old" using assms by blast
    obtain rs1 w1 where f: "forEach_finish d (calls ! i) rs w = (rs1, w1)"
      by (cases "forEach_finish d (calls ! i) rs w") auto
    then have "rs1 = rs @ pushed d (calls ! i)"
      using forEach_finish_result [OF old, of d rs w] by simp
    then show ?thesis using True f Cons.IH [of "i # finished" rs1 w1] by simp
  next
    case False
    then show ?thesis using Cons.IH [of finished rs w] by auto
  qed
qed


lemma separate_result:
  "fst (separate d sched args currentAlpha newAlpha currentStable newStable commits
          unstablePackages stableCommits w) =
     (case rendering d args currentStable newStable stableCommits of
        Inl e \<Rightarrow> Inl e
      | Inr contents \<Rightarrow>
          Inr (concat (map (\<lambda>i. pkgResult d args currentAlpha newAlpha commits (unstablePackages ! i))
                 (effective (length unstablePackages) sched []))
               @ [\<lparr>filePath = changelogFile args, fileContents = contents\<rparr>]))"
proof -
  let ?calls = "fst (forEach_starts d args currentAlpha newAlpha commits unstablePackages w)"
  let ?w1 = "snd (forEach_starts d args currentAlpha newAlpha commits unstablePackages w)"
  let ?w2 = "createChangelogIfMissing args ?w1"
  let ?rs = "fst (completions d ?calls sched [] [] ?w2)"
  let ?w3 = "snd (completions d ?calls sched [] [] ?w2)"
  have len: "length ?calls = length unstablePackages" by (rule forEach_starts_length)
  have ok: "\<forall>i < length ?calls. \<exists>old. call_oldContent (?calls ! i) = Inr old"
  proof (intro allI impI)
    fix i assume "i < length ?calls"
    then have "i < length unstablePackages" using len by simp
    from forEach_starts_nth [OF this, of d args currentAlpha newAlpha commits w]
    show "\<exists>old. call_oldContent (?calls ! i) = Inr old" by auto
  qed
  have push: "pushed d (?calls ! i)
            = pkgResult d args currentAlpha newAlpha commits (unstablePackages ! i)"
    if "i < length unstablePackages" for i
  proof -
    from forEach_starts_nth [OF that, of d args currentAlpha newAlpha commits w]
    obtain old where "?calls ! i = \<lparr>call_args = pkgArgs d args (unstablePackages ! i),
        call_currentVersion = currentAlpha, call_newVersion = newAlpha,
        call_commits = pkgCommits d commits (unstablePackages ! i), call_oldContent = Inr old\<rparr>"
      by blast
    moreover have "changelogFile (pkgArgs d args (unstablePackages ! i))
        = path_join d (location (unstablePackages ! i)) (changelogFile args)"
      by (simp add: pkgArgs_def)
    ultimately show ?thesis
      by (simp add: pushed_def pkgResult_def rendering_pkgArgs split: sum.splits)
  qed
  have eff: "\<forall>i \<in> set (effective n sched' fin). i < n" for n sched' fin
    by (induction sched' arbitrary: fin) auto
  have rs: "?rs = concat (map (\<lambda>i. pkgResult d args currentAlpha newAlpha commits (unstablePackages ! i))
                 (effective (length unstablePackages) sched []))"
  proof -
    have "?rs = [] @ concat (map (\<lambda>i. pushed d (?calls ! i)) (effective (length ?calls) sched []))"
      by (rule completions_result [OF ok])
    also have "\<dots> = concat (map (\<lambda>i. pkgResult d args currentAlpha newAlpha commits (unstablePackages ! i))
                 (effective (length unstablePackages) sched []))"
      using eff [of "length unstablePackages" sched "[]"] by (auto simp: len push intro!: arg_cong [where f = concat])
    finally show ?thesis .
  qed
  have "separate d sched args currentAlpha newAlpha currentStable newStable commits
          unstablePackages stableCommits w
      = (case changelog_finish d args currentStable newStable stableCommits
                (oldContentOf args ?w1) ?w3 of
           (Inl e, w4) \<Rightarrow> (Inl e, w4)
         | (Inr contents, w4) \<Rightarrow>
             (Inr (?rs @ [\<lparr>filePath = changelogFile args, fileContents = contents\<rparr>]), w4))"
    by (simp add: separate_def changelog_start_eq case_prod_beta)
  then show ?thesis
    using changelog_finish_result [of d args currentStable newStable stableCommits
        "oldContentOf args ?w1" ?w3]
    by (simp add: rs [symmetric] split: prod.splits sum.splits)
qed

lemma separate_Inl:
  "fst (separate d sched args ca na cs ns commits ups stableCommits w) = Inl e \<Longrightarrow> \<exists>x. e = Rejected x"
  by (auto simp: separate_result split: sum.splits dest: rendering_Inl)


lemma filterCommits_spec_exclude:
  "filterCommits_spec packagesOf commits
     \<lparr>excludePackages = Some (map simplifiedName (filter unstable packages)),
      includePackages = None\<rparr>
   = filter (\<lambda>c. \<not> onlyUnstable packagesOf packages c) commits"
proof -
  have m: "n \<in> set (map simplifiedName (filter unstable packages))
      \<longleftrightarrow> (\<exists>p \<in> set packages. unstable p \<and> simplifiedName p = n)" for n
    by auto
  show ?thesis
    unfolding filterCommits_spec_def
    by (rule filter_cong) (auto simp: onlyUnstable_def m simp del: set_map set_filter)
qed

section \<open>The sample inputs evaluated\<close>

lemma rendering_sample:
  "rendering sample_deps args currentVersion newVersion commits =
     Inr (str ''## '' @ newVersion @ str ''\<newline>''
          @ concat (map (\<lambda>c. str ''* '' @ fst c @ str ''\<newline>'') commits))"
  by (simp add: rendering_def sample_deps_def mkContext_def Let_def)

lemma sample_stable:
  "filter (\<lambda>c. \<not> onlyUnstable snd sample_packages c) sample_commits
     = [(str ''fix core'', [str ''core'']), (str ''docs'', [])]"
  by (simp add: onlyUnstable_def sample_packages_def sample_commits_def str_def)




lemma sample_oldContent:
  "oldContentOf sample_args sample_world = str ''## [1.2.0]\<newline>\<newline>* old''"
proof -
  have "oldContentOf sample_args sample_world
      = changelog_oldContent (unreleased @ str ''\<newline>\<newline>* old'')"
    by (simp add: oldContentOf_def sample_args_def sample_world_def truthy_def)
  then show ?thesis by (simp add: changelog_oldContent_unreleased str_def)
qed

section \<open>The claims\<close>




text \<open>
  C2. Outside dry-run mode, \<open>changelog\<close> takes as old content the existing file from the
  first position on at which a release starts: a line that begins with one or more \<open>#\<close>,
  a space, an optional \<open>[\<close> and a version \<open>major.minor.patch\<close>, or the text
  \<open><a name=\<close> anywhere. What stands before that position is dropped; when no position
  matches, the whole file is kept. The old content is what is appended after the rendered
  text in the file that is written (up to the newlines at its very end, of which one is
  kept). For a file that begins
  \<open># Unreleased\<close>, an empty line, \<open>## [1.2.0]\<close>, the old content is the file from
  \<open>## [1.2.0]\<close> on.
\<close>

theorem changelog_split_point:
  assumes "\<not> truthy (dryRun args)"
    and "files w (changelogFile args) = Some existing"
  shows "fst (changelog_start args w) = Inr (changelog_oldContent existing)
       \<and> (\<forall>j. j \<le> length existing \<and> releaseStartsAt existing j
                \<and> (\<forall>k < j. \<not> releaseStartsAt existing k) \<longrightarrow>
              search existing START_OF_LAST_RELEASE_PATTERN = int j
              \<and> changelog_oldContent existing = drop j existing)
       \<and> ((\<forall>k \<le> length existing. \<not> releaseStartsAt existing k) \<longrightarrow>
              search existing START_OF_LAST_RELEASE_PATTERN = -1
              \<and> changelog_oldContent existing = existing)
       \<and> (\<forall>rest. existing = str ''# Unreleased\<newline>\<newline>## [1.2.0]'' @ rest \<longrightarrow>
              changelog_oldContent existing = str ''## [1.2.0]'' @ rest)
       \<and> (\<forall>content. rendering d args currentVersion newVersion commits = Inr content \<longrightarrow>
              files (snd (changelog d args currentVersion newVersion commits w)) (changelogFile args)
                = Some (merged args content (changelog_oldContent existing))
              \<and> ((\<exists>c \<in> set (changelog_oldContent existing). c \<noteq> 10) \<longrightarrow>
                   merged args content (changelog_oldContent existing)
                     = toString (changeLogHeader args) @ str ''\<newline>'' @ content
                       @ collapseTrailingNewlines (changelog_oldContent existing)))"
proof -
  have old: "oldContentOf args w = changelog_oldContent existing"
    using assms by (simp add: oldContentOf_def)
  have 1: "fst (changelog_start args w) = Inr (changelog_oldContent existing)"
    by (simp add: changelog_start_eq old)
  have 2: "search existing START_OF_LAST_RELEASE_PATTERN = int j
         \<and> changelog_oldContent existing = drop j existing"
    if "j \<le> length existing \<and> releaseStartsAt existing j
          \<and> (\<forall>k < j. \<not> releaseStartsAt existing k)" for j
  proof -
    have j: "j \<le> length existing" using that by simp
    have a: "ends START_OF_LAST_RELEASE_PATTERN existing j \<noteq> []"
      using that START_matches [OF j] by simp
    have b: "\<forall>k < j. ends START_OF_LAST_RELEASE_PATTERN existing k = []"
    proof (intro allI impI)
      fix k assume "k < j"
      then have "k \<le> length existing" "\<not> releaseStartsAt existing k" using that by simp_all
      then show "ends START_OF_LAST_RELEASE_PATTERN existing k = []"
        using START_matches [of k existing] by simp
    qed
    show ?thesis
      using search_first [OF j b a] changelog_oldContent_first [OF j b a] by simp
  qed
  have 3: "search existing START_OF_LAST_RELEASE_PATTERN = -1
         \<and> changelog_oldContent existing = existing"
    if "\<forall>k \<le> length existing. \<not> releaseStartsAt existing k"
  proof -
    have "\<forall>k \<le> length existing. ends START_OF_LAST_RELEASE_PATTERN existing k = []"
      using that START_matches [of _ existing] by simp
    then show ?thesis
      using search_none changelog_oldContent_none by blast
  qed
  have 4: "\<forall>rest. existing = str ''# Unreleased\<newline>\<newline>## [1.2.0]'' @ rest \<longrightarrow>
              changelog_oldContent existing = str ''## [1.2.0]'' @ rest"
    using changelog_oldContent_unreleased by (simp add: unreleased_def)
  have 5: "\<forall>content. rendering d args currentVersion newVersion commits = Inr content \<longrightarrow>
              files (snd (changelog d args currentVersion newVersion commits w)) (changelogFile args)
                = Some (merged args content (changelog_oldContent existing))"
    using assms(1) by (simp add: changelog_files old)
  have 6: "merged args content (changelog_oldContent existing)
         = toString (changeLogHeader args) @ str ''\<newline>'' @ content
           @ collapseTrailingNewlines (changelog_oldContent existing)"
    if "\<exists>c \<in> set (changelog_oldContent existing). c \<noteq> 10" for content
    unfolding merged_def replace_TRAILING_NEWLINES
    using collapse_append [OF that, of content] by (simp add: collapseTrailingNewlines_def)
  show ?thesis
    using 1 2 3 4 5 6 by blast
qed

theorem changelog_split_point_witness:
  "\<not> truthy (dryRun sample_args)
   \<and> files sample_world (changelogFile sample_args)
       = Some (str ''# Unreleased\<newline>\<newline>## [1.2.0]\<newline>\<newline>* old'')
   \<and> 14 \<le> length (str ''# Unreleased\<newline>\<newline>## [1.2.0]\<newline>\<newline>* old'')
   \<and> releaseStartsAt (str ''# Unreleased\<newline>\<newline>## [1.2.0]\<newline>\<newline>* old'') 14
   \<and> \<not> (\<exists>k < 14. releaseStartsAt (str ''# Unreleased\<newline>\<newline>## [1.2.0]\<newline>\<newline>* old'') k)
   \<and> search (str ''# Unreleased\<newline>\<newline>## [1.2.0]\<newline>\<newline>* old'')
         START_OF_LAST_RELEASE_PATTERN = 14
   \<and> fst (changelog_start sample_args sample_world)
       = (Inr (str ''## [1.2.0]\<newline>\<newline>* old'') :: jsstring error + jsstring)
   \<and> files fresh_world (changelogFile sample_args) = Some (str ''# Changelog\<newline>'')
   \<and> \<not> (\<exists>k \<le> length (str ''# Changelog\<newline>''). releaseStartsAt (str ''# Changelog\<newline>'') k)
   \<and> fst (changelog_start sample_args fresh_world)
       = (Inr (str ''# Changelog\<newline>'') :: jsstring error + jsstring)
   \<and> rendering sample_deps sample_args (str ''1.2.0'') (str ''1.3.0'') [(str ''docs'', [])]
       = Inr (str ''## 1.3.0\<newline>* docs\<newline>'')
   \<and> files (snd (changelog sample_deps sample_args (str ''1.2.0'') (str ''1.3.0'')
         [(str ''docs'', [])] fresh_world)) (changelogFile sample_args)
       = Some (str ''# Changelog\<newline>## 1.3.0\<newline>* docs\<newline># Changelog\<newline>'')"
proof -
  let ?old = "str ''# Unreleased\<newline>\<newline>## [1.2.0]\<newline>\<newline>* old''"
  let ?fresh = "str ''# Changelog\<newline>''"
  have eq: "?old = unreleased @ str ''\<newline>\<newline>* old''"
    by (simp add: unreleased_def str_def)
  have h1: "\<not> truthy (dryRun sample_args)" by (simp add: sample_args_def truthy_def)
  have h2: "files sample_world (changelogFile sample_args) = Some ?old"
    by (simp add: sample_world_def sample_args_def eq)
  have h3: "14 \<le> length ?old" by (simp add: str_def)
  have h4: "releaseStartsAt ?old 14"
    using START_matches [OF h3] unreleased_at [of "str ''\<newline>\<newline>* old''"]
    unfolding eq by blast
  have h5: "\<forall>k < 14. \<not> releaseStartsAt ?old k"
  proof (intro allI impI)
    fix k :: nat assume k: "k < 14"
    then have "k \<le> length ?old" using h3 by simp
    from START_matches [OF this] unreleased_before [OF k, of "str ''\<newline>\<newline>* old''"]
    show "\<not> releaseStartsAt ?old k" unfolding eq by blast
  qed
  have g2: "files fresh_world (changelogFile sample_args) = Some ?fresh"
    by (simp add: fresh_world_def sample_args_def)
  have len: "length ?fresh = 12" by (simp add: str_def)
  have g3: "\<forall>k \<le> length ?fresh. \<not> releaseStartsAt ?fresh k"
  proof (intro allI impI)
    fix k assume k: "k \<le> length ?fresh"
    then have "k \<le> 12" using len by simp
    from START_matches [OF k] fresh_no_release [OF this]
    show "\<not> releaseStartsAt ?fresh k" by blast
  qed
  have r: "rendering sample_deps sample_args (str ''1.2.0'') (str ''1.3.0'') [(str ''docs'', [])]
       = Inr (str ''## 1.3.0\<newline>* docs\<newline>'')"
    by (simp add: rendering_sample str_def)
  note a = changelog_split_point [OF h1 h2, of sample_deps "str ''1.2.0''" "str ''1.3.0''"
      "[(str ''docs'', [])]"]
  note b = changelog_split_point [OF h1 g2, of sample_deps "str ''1.2.0''" "str ''1.3.0''"
      "[(str ''docs'', [])]"]
  have a2: "search ?old START_OF_LAST_RELEASE_PATTERN = 14
      \<and> changelog_oldContent ?old = drop 14 ?old"
    using a [THEN conjunct2, THEN conjunct1, rule_format, of 14] h3 h4 h5 by simp
  have a1: "fst (changelog_start sample_args sample_world)
       = (Inr (str ''## [1.2.0]\<newline>\<newline>* old'') :: jsstring error + jsstring)"
    using a [THEN conjunct1] a2 by (simp add: changelog_start_eq) (simp add: str_def)
  have b3: "changelog_oldContent ?fresh = ?fresh"
    using b [THEN conjunct2, THEN conjunct2, THEN conjunct1] g3 by blast
  have b1: "fst (changelog_start sample_args fresh_world)
       = (Inr ?fresh :: jsstring error + jsstring)"
    using b [THEN conjunct1] b3 by (simp add: changelog_start_eq)
  have m: "merged sample_args (str ''## 1.3.0\<newline>* docs\<newline>'') ?fresh
      = str ''# Changelog\<newline>## 1.3.0\<newline>* docs\<newline># Changelog\<newline>''"
    unfolding merged_def replace_TRAILING_NEWLINES
    by (simp add: sample_args_def toString_def stripNewlines_def str_def)
  have b5: "files (snd (changelog sample_deps sample_args (str ''1.2.0'') (str ''1.3.0'')
         [(str ''docs'', [])] fresh_world)) (changelogFile sample_args)
       = Some (str ''# Changelog\<newline>## 1.3.0\<newline>* docs\<newline># Changelog\<newline>'')"
    using b [THEN conjunct2, THEN conjunct2, THEN conjunct2, THEN conjunct2, rule_format, OF r,
        THEN conjunct1]
    by (simp only: b3 m)
  have n5: "\<not> (\<exists>k < 14. releaseStartsAt ?old k)" using h5 by blast
  have n3: "\<not> (\<exists>k \<le> length ?fresh. releaseStartsAt ?fresh k)" using g3 by blast
  show ?thesis
    by (intro conjI) (rule h1 h2 h3 h4 n5 a2 [THEN conjunct1] a1 g2 n3 b1 r b5)+
qed

text \<open>
  C3, as the code has it. A successful call of \<open>changelog\<close> outside dry-run mode, with a
  \<open>changeLogHeader\<close> string, writes to the target file exactly the header, a newline, and
  the rendered text followed by the preserved old content, where a run of newlines at the
  very end of that concatenation is replaced by a single newline and a concatenation that
  does not end in a newline is written as it is; no other file changes, and the call
  resolves with the rendered text alone. Collapsing is idempotent. When the concatenation
  ends in a newline and holds some other character, the written file ends with exactly one
  newline.
\<close>

theorem changelog_writes_merged:
  assumes "\<not> truthy (dryRun args)"
    and "changeLogHeader args = Some header"
    and "fst (changelog_start args w) = Inr oldContent"
    and "rendering d args currentVersion newVersion commits = Inr content"
  shows "fst (changelog d args currentVersion newVersion commits w) = Inr content
       \<and> files (snd (changelog d args currentVersion newVersion commits w)) (changelogFile args)
           = Some (header @ str ''\<newline>''
                   @ replace (content @ oldContent) TRAILING_NEWLINES (str ''\<newline>''))
       \<and> (\<forall>p. p \<noteq> changelogFile args \<longrightarrow>
              files (snd (changelog d args currentVersion newVersion commits w)) p = files w p)
       \<and> replace (content @ oldContent) TRAILING_NEWLINES (str ''\<newline>'')
           = collapseTrailingNewlines (content @ oldContent)
       \<and> (\<forall>m. collapseTrailingNewlines (collapseTrailingNewlines m) = collapseTrailingNewlines m)
       \<and> ((\<exists>c \<in> set (content @ oldContent). c \<noteq> 10) \<and> last (content @ oldContent) = 10 \<longrightarrow>
            (\<exists>t. header @ str ''\<newline>''
                   @ replace (content @ oldContent) TRAILING_NEWLINES (str ''\<newline>'') = t @ [10]
                 \<and> t \<noteq> [] \<and> last t \<noteq> 10))"
proof -
  have old: "oldContentOf args w = oldContent"
    using assms(3) by (simp add: changelog_start_eq)
  have r: "replace (content @ oldContent) TRAILING_NEWLINES (str ''\<newline>'')
         = collapseTrailingNewlines (content @ oldContent)"
    by (simp only: replace_TRAILING_NEWLINES collapseTrailingNewlines_def)
  have 1: "fst (changelog d args currentVersion newVersion commits w) = Inr content"
    by (simp add: changelog_result assms(4))
  have f: "files (snd (changelog d args currentVersion newVersion commits w))
         = (files w)(changelogFile args \<mapsto> merged args content oldContent)"
    using assms(1) by (simp add: changelog_files assms(4) old)
  have 2: "files (snd (changelog d args currentVersion newVersion commits w)) (changelogFile args)
           = Some (header @ str ''\<newline>''
                   @ replace (content @ oldContent) TRAILING_NEWLINES (str ''\<newline>''))"
    by (simp add: f merged_def assms(2) toString_def)
  have 3: "\<forall>p. p \<noteq> changelogFile args \<longrightarrow>
              files (snd (changelog d args currentVersion newVersion commits w)) p = files w p"
    by (simp add: f)
  have 5: "\<forall>m. collapseTrailingNewlines (collapseTrailingNewlines m) = collapseTrailingNewlines m"
    by (simp add: collapse_idem)
  have 6: "(\<exists>c \<in> set (content @ oldContent). c \<noteq> 10) \<and> last (content @ oldContent) = 10 \<longrightarrow>
            (\<exists>t. header @ str ''\<newline>''
                   @ replace (content @ oldContent) TRAILING_NEWLINES (str ''\<newline>'') = t @ [10]
                 \<and> t \<noteq> [] \<and> last t \<noteq> 10)"
    unfolding r using collapse_one_newline [of "content @ oldContent" header] by blast
  show ?thesis
    by (intro conjI) (rule 1 2 3 r 5 6)+
qed

theorem changelog_writes_merged_witness:
  "\<not> truthy (dryRun sample_args)
   \<and> changeLogHeader sample_args = Some (str ''# Changelog'')
   \<and> fst (changelog_start sample_args empty_world) = (Inr (str ''\<newline>'') :: jsstring error + jsstring)
   \<and> rendering sample_deps sample_args (str ''1.2.0'') (str ''1.3.0'') [(str ''docs'', [])]
       = Inr (str ''## 1.3.0\<newline>* docs\<newline>'')
   \<and> (\<exists>c \<in> set (str ''## 1.3.0\<newline>* docs\<newline>'' @ str ''\<newline>''). c \<noteq> 10)
   \<and> last (str ''## 1.3.0\<newline>* docs\<newline>'' @ str ''\<newline>'') = 10
   \<and> fst (changelog sample_deps sample_args (str ''1.2.0'') (str ''1.3.0'') [(str ''docs'', [])]
         empty_world) = Inr (str ''## 1.3.0\<newline>* docs\<newline>'')
   \<and> files (snd (changelog sample_deps sample_args (str ''1.2.0'') (str ''1.3.0'')
         [(str ''docs'', [])] empty_world)) (changelogFile sample_args)
       = Some (str ''# Changelog\<newline>## 1.3.0\<newline>* docs\<newline>'')"
proof -
  have h1: "\<not> truthy (dryRun sample_args)" by (simp add: sample_args_def truthy_def)
  have h2: "changeLogHeader sample_args = Some (str ''# Changelog'')"
    by (simp add: sample_args_def)
  have "changelog_oldContent (str ''\<newline>'') = str ''\<newline>''"
    by (rule changelog_oldContent_none)
       (simp add: str_def START_OF_LAST_RELEASE_PATTERN_def isLineTerminator_def run_def
          le_Suc_eq)
  then have h3: "fst (changelog_start sample_args empty_world)
      = (Inr (str ''\<newline>'') :: jsstring error + jsstring)"
    using h1 by (simp add: changelog_start_eq oldContentOf_def empty_world_def)
  have h4: "rendering sample_deps sample_args (str ''1.2.0'') (str ''1.3.0'') [(str ''docs'', [])]
       = Inr (str ''## 1.3.0\<newline>* docs\<newline>'')"
    by (simp add: rendering_sample str_def)
  have h5: "\<exists>c \<in> set (str ''## 1.3.0\<newline>* docs\<newline>'' @ str ''\<newline>''). c \<noteq> 10"
    by (simp add: str_def)
  have h6: "last (str ''## 1.3.0\<newline>* docs\<newline>'' @ str ''\<newline>'') = 10"
    by (simp add: str_def)
  note t = changelog_writes_merged [OF h1 h2 h3 h4]
  have c: "collapseTrailingNewlines (str ''## 1.3.0\<newline>* docs\<newline>'' @ str ''\<newline>'')
      = str ''## 1.3.0\<newline>* docs\<newline>''"
    by (simp add: collapseTrailingNewlines_def stripNewlines_def str_def)
  have w: "files (snd (changelog sample_deps sample_args (str ''1.2.0'') (str ''1.3.0'')
         [(str ''docs'', [])] empty_world)) (changelogFile sample_args)
       = Some (str ''# Changelog\<newline>## 1.3.0\<newline>* docs\<newline>'')"
    unfolding t [THEN conjunct2, THEN conjunct1]
      t [THEN conjunct2, THEN conjunct2, THEN conjunct2, THEN conjunct1] c
    by (simp add: str_def)
  show ?thesis
    by (intro conjI) (rule h1 h2 h3 h4 h5 h6 t [THEN conjunct1] w)+
qed

text \<open>
  The written file does not always end with exactly one newline: on the sample input the
  existing changelog ends without a newline, and so does the file that is written.
\<close>

theorem changelog_no_trailing_newline:
  "\<not> truthy (dryRun sample_args)
   \<and> files sample_world (str ''CHANGELOG.md'')
       = Some (str ''# Unreleased\<newline>\<newline>## [1.2.0]\<newline>\<newline>* old'')
   \<and> fst (changelog sample_deps sample_args (str ''1.2.0'') (str ''1.3.0'') [(str ''docs'', [])]
         sample_world) = Inr (str ''## 1.3.0\<newline>* docs\<newline>'')
   \<and> files (snd (changelog sample_deps sample_args (str ''1.2.0'') (str ''1.3.0'')
         [(str ''docs'', [])] sample_world)) (str ''CHANGELOG.md'')
       = Some (str ''# Changelog\<newline>## 1.3.0\<newline>* docs\<newline>## [1.2.0]\<newline>\<newline>* old'')
   \<and> last (str ''# Changelog\<newline>## 1.3.0\<newline>* docs\<newline>## [1.2.0]\<newline>\<newline>* old'') \<noteq> 10"
proof -
  have h1: "\<not> truthy (dryRun sample_args)" by (simp add: sample_args_def truthy_def)
  have f: "files sample_world (str ''CHANGELOG.md'')
       = Some (str ''# Unreleased\<newline>\<newline>## [1.2.0]\<newline>\<newline>* old'')"
    by (simp add: sample_world_def unreleased_def str_def)
  have r: "rendering sample_deps sample_args (str ''1.2.0'') (str ''1.3.0'') [(str ''docs'', [])]
       = Inr (str ''## 1.3.0\<newline>* docs\<newline>'')"
    by (simp add: rendering_sample str_def)
  have 1: "fst (changelog sample_deps sample_args (str ''1.2.0'') (str ''1.3.0'') [(str ''docs'', [])]
         sample_world) = Inr (str ''## 1.3.0\<newline>* docs\<newline>'')"
    by (simp only: changelog_result r)
  have m: "merged sample_args (str ''## 1.3.0\<newline>* docs\<newline>'')
             (str ''## [1.2.0]\<newline>\<newline>* old'')
      = str ''# Changelog\<newline>## 1.3.0\<newline>* docs\<newline>## [1.2.0]\<newline>\<newline>* old''"
    unfolding merged_def replace_TRAILING_NEWLINES
    by (simp add: sample_args_def toString_def str_def)
  have 2: "files (snd (changelog sample_deps sample_args (str ''1.2.0'') (str ''1.3.0'')
         [(str ''docs'', [])] sample_world)) (str ''CHANGELOG.md'')
       = Some (str ''# Changelog\<newline>## 1.3.0\<newline>* docs\<newline>## [1.2.0]\<newline>\<newline>* old'')"
    using h1 by (simp add: changelog_files r sample_oldContent m) (simp add: sample_args_def)
  have 3: "last (str ''# Changelog\<newline>## 1.3.0\<newline>* docs\<newline>## [1.2.0]\<newline>\<newline>* old'') \<noteq> 10"
    by (simp add: str_def)
  show ?thesis
    by (intro conjI) (rule h1 f 1 2 3)+
qed

text \<open>
  C4, with the message as the code has it. Under the \<open>separate\<close> treatment, with
  \<open>skip.changelog\<close> not set: if \<open>currentVersion.alphaVersion\<close> or
  \<open>newVersion.alphaVersion\<close> is undefined, \<open>writeChangelogs\<close> fails with the error
  \<open>unable to create "separate" changelogs without alpha package versions\<close> (the word
  \<open>separate\<close> in double quotes), before any rendering starts and with no file touched.
\<close>

theorem writeChangelogs_separate_without_alpha:
  assumes "\<not> skipsChangelog args"
    and "experimentalChangesTreatment args = Some (str ''separate'')"
    and "alphaVersion currentVersion = None \<or> alphaVersion newVersion = None"
  shows "writeChangelogs d sched args currentVersion newVersion commits packages w =
     (Inl (Error (str ''unable to create \"separate\" changelogs without alpha package versions'')), w)"
  using assms(3) by (auto simp: writeChangelogs_separate [OF assms(1,2)] falsy_def)

theorem writeChangelogs_separate_without_alpha_witness:
  "\<not> skipsChangelog separate_args
   \<and> experimentalChangesTreatment separate_args = Some (str ''separate'')
   \<and> (alphaVersion sample_current = None \<or> alphaVersion (sample_new\<lparr>alphaVersion := None\<rparr>) = None)
   \<and> writeChangelogs sample_deps [0] separate_args sample_current
         (sample_new\<lparr>alphaVersion := None\<rparr>) sample_commits sample_packages sample_world =
       (Inl (Error (str ''unable to create \"separate\" changelogs without alpha package versions'')),
        sample_world)"
proof -
  have h1: "\<not> skipsChangelog separate_args"
    by (simp add: skipsChangelog_def separate_args_def sample_args_def)
  have h2: "experimentalChangesTreatment separate_args = Some (str ''separate'')"
    by (simp add: separate_args_def)
  have h3: "alphaVersion sample_current = None \<or> alphaVersion (sample_new\<lparr>alphaVersion := None\<rparr>) = None"
    by simp
  show ?thesis
    using writeChangelogs_separate_without_alpha [OF h1 h2 h3] h1 h2 h3 by blast
qed

text \<open>
  The message of the error is not the one with \<open>separate\<close> in single quotes: on the
  sample input, with the new alpha version undefined, the error differs from it.
\<close>

theorem writeChangelogs_separate_without_alpha_message:
  "\<not> skipsChangelog separate_args
   \<and> experimentalChangesTreatment separate_args = Some (str ''separate'')
   \<and> alphaVersion (sample_new\<lparr>alphaVersion := None\<rparr>) = None
   \<and> fst (writeChangelogs sample_deps [0] separate_args sample_current
         (sample_new\<lparr>alphaVersion := None\<rparr>) sample_commits sample_packages sample_world)
       \<noteq> Inl (Error (str ''unable to create 'separate' changelogs without alpha package versions''))"
proof -
  have h1: "\<not> skipsChangelog separate_args"
    by (simp add: skipsChangelog_def separate_args_def sample_args_def)
  have h2: "experimentalChangesTreatment separate_args = Some (str ''separate'')"
    by (simp add: separate_args_def)
  have "fst (writeChangelogs sample_deps [0] separate_args sample_current
         (sample_new\<lparr>alphaVersion := None\<rparr>) sample_commits sample_packages sample_world)
      = Inl (Error (str ''unable to create \"separate\" changelogs without alpha package versions''))"
    by (simp add: writeChangelogs_separate [OF h1 h2] falsy_def)
  moreover have "str ''unable to create \"separate\" changelogs without alpha package versions''
      \<noteq> str ''unable to create 'separate' changelogs without alpha package versions''"
    by (simp add: str_def)
  ultimately show ?thesis using h1 h2 by simp
qed

text \<open>
  C5. \<open>filterCommits\<close> being as the specification describes it, the \<open>stableCommits\<close> that
  \<open>writeChangelogs\<close> computes are the commits, in their order, without those associated
  only with unstable packages; a commit with no package, or with a package that is not an
  unstable one, stays. Under \<open>strip\<close> exactly these commits are rendered, under
  \<open>include\<close> the full list, each against the stable version pair, and the result is the
  single entry for \<open>args.changelogFile\<close>.
\<close>

theorem writeChangelogs_stableCommits:
  assumes "\<not> skipsChangelog args"
    and "filterCommits d = filterCommits_spec packagesOf"
  shows "filterCommits d commits
           \<lparr>excludePackages = Some (map simplifiedName (filter unstable packages)),
            includePackages = None\<rparr>
         = filter (\<lambda>c. \<not> onlyUnstable packagesOf packages c) commits
       \<and> (experimentalChangesTreatment args = Some (str ''strip'') \<longrightarrow>
            fst (writeChangelogs d sched args currentVersion newVersion commits packages w)
              = map_sum id (\<lambda>contents. [\<lparr>filePath = changelogFile args, fileContents = contents\<rparr>])
                  (rendering d args (stableVersion currentVersion) (stableVersion newVersion)
                     (filter (\<lambda>c. \<not> onlyUnstable packagesOf packages c) commits)))
       \<and> (experimentalChangesTreatment args = Some (str ''include'') \<longrightarrow>
            fst (writeChangelogs d sched args currentVersion newVersion commits packages w)
              = map_sum id (\<lambda>contents. [\<lparr>filePath = changelogFile args, fileContents = contents\<rparr>])
                  (rendering d args (stableVersion currentVersion) (stableVersion newVersion)
                     commits))"
proof (intro conjI impI)
  show stable: "filterCommits d commits
           \<lparr>excludePackages = Some (map simplifiedName (filter unstable packages)),
            includePackages = None\<rparr>
         = filter (\<lambda>c. \<not> onlyUnstable packagesOf packages c) commits"
    unfolding assms(2) by (rule filterCommits_spec_exclude)
  show "fst (writeChangelogs d sched args currentVersion newVersion commits packages w)
      = map_sum id (\<lambda>contents. [\<lparr>filePath = changelogFile args, fileContents = contents\<rparr>])
          (rendering d args (stableVersion currentVersion) (stableVersion newVersion)
             (filter (\<lambda>c. \<not> onlyUnstable packagesOf packages c) commits))"
    if "experimentalChangesTreatment args = Some (str ''strip'')"
    using writeChangelogs_strip [OF assms(1) that, of d sched currentVersion newVersion commits
        packages w]
    unfolding stable .
  show "fst (writeChangelogs d sched args currentVersion newVersion commits packages w)
      = map_sum id (\<lambda>contents. [\<lparr>filePath = changelogFile args, fileContents = contents\<rparr>])
          (rendering d args (stableVersion currentVersion) (stableVersion newVersion) commits)"
    if "experimentalChangesTreatment args = Some (str ''include'')"
    using that by (intro writeChangelogs_include [OF assms(1)]) simp
qed

theorem writeChangelogs_stableCommits_witness:
  "\<not> skipsChangelog strip_args \<and> \<not> skipsChangelog include_args
   \<and> filterCommits sample_deps = filterCommits_spec snd
   \<and> experimentalChangesTreatment strip_args = Some (str ''strip'')
   \<and> experimentalChangesTreatment include_args = Some (str ''include'')
   \<and> filterCommits sample_deps sample_commits
         \<lparr>excludePackages = Some (map simplifiedName (filter unstable sample_packages)),
          includePackages = None\<rparr>
       = [(str ''fix core'', [str ''core'']), (str ''docs'', [])]
   \<and> fst (writeChangelogs sample_deps [] strip_args sample_current sample_new sample_commits
         sample_packages sample_world)
       = Inr [\<lparr>filePath = str ''CHANGELOG.md'',
               fileContents = str ''## 1.3.0\<newline>* fix core\<newline>* docs\<newline>''\<rparr>]
   \<and> fst (writeChangelogs sample_deps [] include_args sample_current sample_new sample_commits
         sample_packages sample_world)
       = Inr [\<lparr>filePath = str ''CHANGELOG.md'',
               fileContents = str ''## 1.3.0\<newline>* fix core\<newline>* add lab\<newline>* docs\<newline>''\<rparr>]"
proof -
  have s: "\<not> skipsChangelog strip_args"
    by (simp add: skipsChangelog_def strip_args_def sample_args_def)
  have i: "\<not> skipsChangelog include_args"
    by (simp add: skipsChangelog_def include_args_def sample_args_def)
  have f: "filterCommits sample_deps = filterCommits_spec snd"
    by (simp add: sample_deps_def)
  have ts: "experimentalChangesTreatment strip_args = Some (str ''strip'')"
    by (simp add: strip_args_def)
  have ti: "experimentalChangesTreatment include_args = Some (str ''include'')"
    by (simp add: include_args_def)
  note a = writeChangelogs_stableCommits [OF s f, of sample_commits sample_packages "[]"
      sample_current sample_new sample_world]
  note b = writeChangelogs_stableCommits [OF i f, of sample_commits sample_packages "[]"
      sample_current sample_new sample_world]
  have 1: "filterCommits sample_deps sample_commits
         \<lparr>excludePackages = Some (map simplifiedName (filter unstable sample_packages)),
          includePackages = None\<rparr>
       = [(str ''fix core'', [str ''core'']), (str ''docs'', [])]"
    using a [THEN conjunct1] by (simp only: sample_stable)
  have 2: "fst (writeChangelogs sample_deps [] strip_args sample_current sample_new sample_commits
         sample_packages sample_world)
       = Inr [\<lparr>filePath = str ''CHANGELOG.md'',
               fileContents = str ''## 1.3.0\<newline>* fix core\<newline>* docs\<newline>''\<rparr>]"
    unfolding a [THEN conjunct2, THEN conjunct1, THEN mp, OF ts] sample_stable rendering_sample
    by (simp add: strip_args_def sample_args_def sample_new_def str_def)
  have 3: "fst (writeChangelogs sample_deps [] include_args sample_current sample_new sample_commits
         sample_packages sample_world)
       = Inr [\<lparr>filePath = str ''CHANGELOG.md'',
               fileContents = str ''## 1.3.0\<newline>* fix core\<newline>* add lab\<newline>* docs\<newline>''\<rparr>]"
    unfolding b [THEN conjunct2, THEN conjunct2, THEN mp, OF ti] rendering_sample
    by (simp add: include_args_def sample_args_def sample_new_def sample_commits_def str_def)
  show ?thesis
    by (intro conjI) (rule s i f ts ti 1 2 3)+
qed

text \<open>
  C6. In dry-run mode \<open>changelog\<close> leaves every file as it is (a missing changelog is not
  created, an existing one is not modified), the old content is the empty string whatever
  the file holds, and the call settles with the outcome of the render alone: when the
  stream ends, with exactly the text of its chunks.
\<close>

theorem changelog_dryRun:
  assumes "dryRun args = Some True"
  shows "files (snd (changelog d args currentVersion newVersion commits w)) = files w
       \<and> fst (changelog_start args w) = (Inr [] :: 'x error + jsstring)
       \<and> fst (changelog d args currentVersion newVersion commits w)
           = rendering d args currentVersion newVersion commits
       \<and> (\<forall>presetConfig chunks.
             conventionalChangelogPresetLoader d (str ''conventional-changelog-conventionalcommits'')
               = Inr presetConfig
             \<and> changelogStream d args presetConfig currentVersion newVersion commits
               = Ended chunks
             \<longrightarrow> fst (changelog d args currentVersion newVersion commits w) = Inr (concat chunks))"
  using assms
  by (auto simp: changelog_files changelog_result changelog_start_eq oldContentOf_def truthy_def
      rendering_def changelogStream_def)

theorem changelog_dryRun_witness:
  "dryRun dry_args = Some True
   \<and> files (snd (changelog sample_deps dry_args (str ''1.2.0'') (str ''1.3.0'') sample_commits
         empty_world)) = files empty_world
   \<and> files (snd (changelog sample_deps dry_args (str ''1.2.0'') (str ''1.3.0'') sample_commits
         sample_world)) = files sample_world
   \<and> fst (changelog_start dry_args sample_world) = (Inr [] :: jsstring error + jsstring)
   \<and> conventionalChangelogPresetLoader sample_deps
         (str ''conventional-changelog-conventionalcommits'') = Inr ()
   \<and> changelogStream sample_deps dry_args () (str ''1.2.0'') (str ''1.3.0'') [(str ''docs'', [])]
       = Ended [str ''## 1.3.0\<newline>'', str ''* docs\<newline>'']
   \<and> fst (changelog sample_deps dry_args (str ''1.2.0'') (str ''1.3.0'') [(str ''docs'', [])]
         sample_world) = Inr (concat [str ''## 1.3.0\<newline>'', str ''* docs\<newline>''])"
proof -
  have h: "dryRun dry_args = Some True" by (simp add: dry_args_def)
  have p: "conventionalChangelogPresetLoader sample_deps
      (str ''conventional-changelog-conventionalcommits'') = Inr ()"
    by (simp add: sample_deps_def)
  have s: "changelogStream sample_deps dry_args () (str ''1.2.0'') (str ''1.3.0'') [(str ''docs'', [])]
       = Ended [str ''## 1.3.0\<newline>'', str ''* docs\<newline>'']"
    by (simp add: changelogStream_def sample_deps_def mkContext_def Let_def str_def)
  note a = changelog_dryRun [OF h, of sample_deps "str ''1.2.0''" "str ''1.3.0''" sample_commits
      empty_world]
  note b = changelog_dryRun [OF h, of sample_deps "str ''1.2.0''" "str ''1.3.0''" sample_commits
      sample_world]
  note c = changelog_dryRun [OF h, of sample_deps "str ''1.2.0''" "str ''1.3.0''"
      "[(str ''docs'', [])]" sample_world]
  have 1: "fst (changelog sample_deps dry_args (str ''1.2.0'') (str ''1.3.0'') [(str ''docs'', [])]
         sample_world) = Inr (concat [str ''## 1.3.0\<newline>'', str ''* docs\<newline>''])"
    using c [THEN conjunct2, THEN conjunct2, THEN conjunct2, rule_format, of "()"] p s by blast
  show ?thesis
    by (intro conjI)
       (rule h p s 1 a [THEN conjunct1] b [THEN conjunct1] b [THEN conjunct2, THEN conjunct1])+
qed

text \<open>
  C7. The \<open>finalizeContext\<close> hook gives every note group titled \<open>BREAKING CHANGES\<close> the
  title \<open>BREAKING CHANGES TO EXPERIMENTAL FEATURES\<close> and leaves the other titles, and
  everything else in the groups and in the context, as they are; the date becomes undefined
  exactly when \<open>includeDateInChangelog\<close> is \<open>false\<close>, and is untouched otherwise. Every
  call of \<open>changelog\<close>, whatever the arguments, settles with what the writer makes of the
  commits under this very hook: the hook is applied unconditionally. With a writer that
  groups the commits, calls the hook and renders what the hook returns, the text is rendered
  from the context the hook returns; and with \<open>includeDateInChangelog\<close> \<open>false\<close> the whole
  outcome of the call, the text and the file, is the same whatever date the writer has put
  into the context: the current date does not reach the output.
\<close>

theorem finalizeContext_effect:
  "(noteGroups ctx = None \<longrightarrow> noteGroups (finalizeContext args ctx) = None)
   \<and> (\<forall>groups. noteGroups ctx = Some groups \<longrightarrow>
         (\<exists>groups'. noteGroups (finalizeContext args ctx) = Some groups'
            \<and> length groups' = length groups
            \<and> (\<forall>i < length groups.
                  title (groups' ! i) =
                    (if title (groups ! i) = str ''BREAKING CHANGES''
                     then str ''BREAKING CHANGES TO EXPERIMENTAL FEATURES''
                     else title (groups ! i))
                  \<and> noteGroup.more (groups' ! i) = noteGroup.more (groups ! i))))
   \<and> date (finalizeContext args ctx)
       = (if includeDateInChangelog args = Some False then None else date ctx)
   \<and> finalContext.more (finalizeContext args ctx) = finalContext.more ctx
   \<and> changelogStream d args presetConfig currentVersion newVersion commits
       = conventionalChangelogWriter d (mkContext currentVersion newVersion) presetConfig
           (finalizeContext args) commits
   \<and> fst (changelog d args currentVersion newVersion commits w)
       = (case conventionalChangelogPresetLoader d
                 (str ''conventional-changelog-conventionalcommits'') of
            Inl x \<Rightarrow> Inl (Rejected x)
          | Inr loaded \<Rightarrow>
              (case conventionalChangelogWriter d (mkContext currentVersion newVersion) loaded
                      (finalizeContext args) commits of
                 Errored chunks err \<Rightarrow> Inl (Rejected err)
               | Ended chunks \<Rightarrow> Inr (concat chunks)))
   \<and> (conventionalChangelogWriter d = hookedWriter grouping template \<longrightarrow>
        fst (changelog d args currentVersion newVersion commits w)
          = (case conventionalChangelogPresetLoader d
                    (str ''conventional-changelog-conventionalcommits'') of
               Inl x \<Rightarrow> Inl (Rejected x)
             | Inr loaded \<Rightarrow>
                 (case template (mkContext currentVersion newVersion) loaded
                         (finalizeContext args
                            (grouping (mkContext currentVersion newVersion) loaded commits)) of
                    Errored chunks err \<Rightarrow> Inl (Rejected err)
                  | Ended chunks \<Rightarrow> Inr (concat chunks))))
   \<and> (includeDateInChangelog args = Some False \<longrightarrow>
        changelog
          (d\<lparr>conventionalChangelogWriter :=
               hookedWriter (\<lambda>c opts cs. (grouping c opts cs)\<lparr>date := today\<rparr>) template\<rparr>)
          args currentVersion newVersion commits w
        = changelog
            (d\<lparr>conventionalChangelogWriter :=
                 hookedWriter (\<lambda>c opts cs. (grouping c opts cs)\<lparr>date := None\<rparr>) template\<rparr>)
            args currentVersion newVersion commits w)"
proof -
  have hook: "(noteGroups ctx = None \<longrightarrow> noteGroups (finalizeContext args ctx) = None)
   \<and> (\<forall>groups. noteGroups ctx = Some groups \<longrightarrow>
         (\<exists>groups'. noteGroups (finalizeContext args ctx) = Some groups'
            \<and> length groups' = length groups
            \<and> (\<forall>i < length groups.
                  title (groups' ! i) =
                    (if title (groups ! i) = str ''BREAKING CHANGES''
                     then str ''BREAKING CHANGES TO EXPERIMENTAL FEATURES''
                     else title (groups ! i))
                  \<and> noteGroup.more (groups' ! i) = noteGroup.more (groups ! i))))
   \<and> date (finalizeContext args ctx)
       = (if includeDateInChangelog args = Some False then None else date ctx)
   \<and> finalContext.more (finalizeContext args ctx) = finalContext.more ctx
   \<and> changelogStream d args presetConfig currentVersion newVersion commits
       = conventionalChangelogWriter d (mkContext currentVersion newVersion) presetConfig
           (finalizeContext args) commits"
    by (cases "noteGroups ctx") (simp_all add: finalizeContext_def changelogStream_def)
  have call: "fst (changelog d args currentVersion newVersion commits w)
       = (case conventionalChangelogPresetLoader d
                 (str ''conventional-changelog-conventionalcommits'') of
            Inl x \<Rightarrow> Inl (Rejected x)
          | Inr loaded \<Rightarrow>
              (case conventionalChangelogWriter d (mkContext currentVersion newVersion) loaded
                      (finalizeContext args) commits of
                 Errored chunks err \<Rightarrow> Inl (Rejected err)
               | Ended chunks \<Rightarrow> Inr (concat chunks)))"
    by (rule changelog_unfolded)
  have hooked: "fst (changelog d args currentVersion newVersion commits w)
          = (case conventionalChangelogPresetLoader d
                    (str ''conventional-changelog-conventionalcommits'') of
               Inl x \<Rightarrow> Inl (Rejected x)
             | Inr loaded \<Rightarrow>
                 (case template (mkContext currentVersion newVersion) loaded
                         (finalizeContext args
                            (grouping (mkContext currentVersion newVersion) loaded commits)) of
                    Errored chunks err \<Rightarrow> Inl (Rejected err)
                  | Ended chunks \<Rightarrow> Inr (concat chunks)))"
    if "conventionalChangelogWriter d = hookedWriter grouping template"
    unfolding call that hookedWriter_def by (rule refl)
  have undated: "changelog
          (d\<lparr>conventionalChangelogWriter :=
               hookedWriter (\<lambda>c opts cs. (grouping c opts cs)\<lparr>date := today\<rparr>) template\<rparr>)
          args currentVersion newVersion commits w
        = changelog
            (d\<lparr>conventionalChangelogWriter :=
                 hookedWriter (\<lambda>c opts cs. (grouping c opts cs)\<lparr>date := None\<rparr>) template\<rparr>)
            args currentVersion newVersion commits w"
    if "includeDateInChangelog args = Some False"
  proof (rule changelog_writer_cong)
    show "conventionalChangelogPresetLoader
            (d\<lparr>conventionalChangelogWriter :=
                 hookedWriter (\<lambda>c opts cs. (grouping c opts cs)\<lparr>date := today\<rparr>) template\<rparr>)
        = conventionalChangelogPresetLoader
            (d\<lparr>conventionalChangelogWriter :=
                 hookedWriter (\<lambda>c opts cs. (grouping c opts cs)\<lparr>date := None\<rparr>) template\<rparr>)"
      by simp
  next
    fix loaded
    have "finalizeContext args
            ((grouping (mkContext currentVersion newVersion) loaded commits)\<lparr>date := today\<rparr>)
        = finalizeContext args
            ((grouping (mkContext currentVersion newVersion) loaded commits)\<lparr>date := None\<rparr>)"
      by (rule finalizeContext_date [OF that])
    then show "conventionalChangelogWriter
            (d\<lparr>conventionalChangelogWriter :=
                 hookedWriter (\<lambda>c opts cs. (grouping c opts cs)\<lparr>date := today\<rparr>) template\<rparr>)
            (mkContext currentVersion newVersion) loaded (finalizeContext args) commits
        = conventionalChangelogWriter
            (d\<lparr>conventionalChangelogWriter :=
                 hookedWriter (\<lambda>c opts cs. (grouping c opts cs)\<lparr>date := None\<rparr>) template\<rparr>)
            (mkContext currentVersion newVersion) loaded (finalizeContext args) commits"
      by (simp add: hookedWriter_def)
  qed
  show ?thesis
    using hook call hooked undated by blast
qed

theorem finalizeContext_effect_witness:
  "noteGroups sample_ctx = Some [\<lparr>title = str ''BREAKING CHANGES''\<rparr>, \<lparr>title = str ''Features''\<rparr>]
   \<and> includeDateInChangelog sample_args = Some False
   \<and> (\<exists>groups'. noteGroups (finalizeContext sample_args sample_ctx) = Some groups'
          \<and> length groups' = 2
          \<and> title (groups' ! 0) = str ''BREAKING CHANGES TO EXPERIMENTAL FEATURES''
          \<and> title (groups' ! 1) = str ''Features'')
   \<and> date (finalizeContext sample_args sample_ctx) = None
   \<and> conventionalChangelogWriter (dated_deps (Some (str ''2026-11-01'')))
       = hookedWriter (\<lambda>c opts cs. (sample_group c opts cs)\<lparr>date := Some (str ''2026-11-01'')\<rparr>)
           sample_template
   \<and> fst (changelog (dated_deps (Some (str ''2026-11-01''))) sample_args (str ''1.2.0'')
         (str ''1.3.0'') sample_commits sample_world)
       = Inr (str ''## 1.3.0\<newline>### BREAKING CHANGES TO EXPERIMENTAL FEATURES\<newline>### Features\<newline>'')
   \<and> changelog (dated_deps (Some (str ''2026-11-01''))) sample_args (str ''1.2.0'')
         (str ''1.3.0'') sample_commits sample_world
       = changelog (dated_deps None) sample_args (str ''1.2.0'') (str ''1.3.0'') sample_commits
           sample_world"
proof -
  let ?day = "Some (str ''2026-11-01'')"
  have g: "noteGroups sample_ctx
      = Some [\<lparr>title = str ''BREAKING CHANGES''\<rparr>, \<lparr>title = str ''Features''\<rparr>]"
    by (simp add: sample_ctx_def)
  have i: "includeDateInChangelog sample_args = Some False"
    by (simp add: sample_args_def)
  have h: "conventionalChangelogWriter (dated_deps ?day)
       = hookedWriter (\<lambda>c opts cs. (sample_group c opts cs)\<lparr>date := ?day\<rparr>) sample_template"
    by (simp add: dated_deps_def)
  note t = finalizeContext_effect [of sample_ctx sample_args "dated_deps ?day" "()"
      "str ''1.2.0''" "str ''1.3.0''" sample_commits sample_world
      "\<lambda>c opts cs. (sample_group c opts cs)\<lparr>date := ?day\<rparr>" sample_template]
  note u = finalizeContext_effect [of sample_ctx sample_args sample_deps "()"
      "str ''1.2.0''" "str ''1.3.0''" sample_commits sample_world sample_group sample_template
      ?day]
  from t [THEN conjunct2, THEN conjunct1, rule_format, OF g]
  obtain groups' where 1: "noteGroups (finalizeContext sample_args sample_ctx) = Some groups'"
    and 2: "length groups' = 2"
    and 3: "\<forall>i < 2. title (groups' ! i) =
                    (if title ([\<lparr>title = str ''BREAKING CHANGES''\<rparr>, \<lparr>title = str ''Features''\<rparr>] ! i)
                          = str ''BREAKING CHANGES''
                     then str ''BREAKING CHANGES TO EXPERIMENTAL FEATURES''
                     else title ([\<lparr>title = str ''BREAKING CHANGES''\<rparr>, \<lparr>title = str ''Features''\<rparr>] ! i))"
    by auto
  have 4: "title (groups' ! 0) = str ''BREAKING CHANGES TO EXPERIMENTAL FEATURES''"
    using 3 [rule_format, of 0] by simp
  have 5: "title (groups' ! 1) = str ''Features''"
    using 3 [rule_format, of 1] by (simp add: str_def)
  have 6: "date (finalizeContext sample_args sample_ctx) = None"
    using t [THEN conjunct2, THEN conjunct2, THEN conjunct1] i by simp
  have p: "conventionalChangelogPresetLoader (dated_deps ?day)
      (str ''conventional-changelog-conventionalcommits'') = Inr ()"
    by (simp add: dated_deps_def sample_deps_def)
  have f: "finalizeContext sample_args ((sample_group c opts cs)\<lparr>date := ?day\<rparr>)
      = \<lparr>noteGroups = Some [\<lparr>title = str ''BREAKING CHANGES TO EXPERIMENTAL FEATURES''\<rparr>,
                             \<lparr>title = str ''Features''\<rparr>],
         date = None\<rparr>" for c opts cs
    by (simp add: finalizeContext_def sample_group_def sample_ctx_def sample_args_def str_def)
  have 7: "fst (changelog (dated_deps ?day) sample_args (str ''1.2.0'') (str ''1.3.0'')
         sample_commits sample_world)
       = Inr (str ''## 1.3.0\<newline>### BREAKING CHANGES TO EXPERIMENTAL FEATURES\<newline>### Features\<newline>'')"
    unfolding t [THEN conjunct2, THEN conjunct2, THEN conjunct2, THEN conjunct2, THEN conjunct2,
        THEN conjunct2, THEN conjunct1, THEN mp, OF h] p
    by (simp add: f sample_template_def mkContext_def Let_def) (simp add: str_def)
  have 8: "changelog (dated_deps ?day) sample_args (str ''1.2.0'') (str ''1.3.0'')
         sample_commits sample_world
       = changelog (dated_deps None) sample_args (str ''1.2.0'') (str ''1.3.0'') sample_commits
           sample_world"
    using u [THEN conjunct2, THEN conjunct2, THEN conjunct2, THEN conjunct2, THEN conjunct2,
        THEN conjunct2, THEN conjunct2, THEN mp, OF i]
    by (simp only: dated_deps_def)
  show ?thesis using g i 1 2 4 5 6 h 7 8 by blast
qed

text \<open>
  C8. Whatever the treatment, the versions (alpha versions missing or not), the commits and
  the packages: if \<open>skip.changelog\<close> is true, \<open>writeChangelogs\<close> returns the empty
  sequence, leaves the files (and the notification channel) as they are and raises no
  error.
\<close>

theorem writeChangelogs_skip:
  assumes "skip args = Some s" and "skipChangelog s = Some True"
  shows "writeChangelogs d sched args currentVersion newVersion commits packages w = (Inr [], w)"
  using assms by (simp add: writeChangelogs_def skipsChangelog_def truthy_def)

theorem writeChangelogs_skip_witness:
  "skip (sample_args\<lparr>skip := Some \<lparr>skipChangelog = Some True\<rparr>,
                     experimentalChangesTreatment := Some (str ''separate'')\<rparr>)
     = Some \<lparr>skipChangelog = Some True\<rparr>
   \<and> skipChangelog \<lparr>skipChangelog = Some True\<rparr> = Some True
   \<and> writeChangelogs sample_deps [0]
        (sample_args\<lparr>skip := Some \<lparr>skipChangelog = Some True\<rparr>,
                     experimentalChangesTreatment := Some (str ''separate'')\<rparr>)
        sample_current (sample_new\<lparr>alphaVersion := None\<rparr>) sample_commits sample_packages
        sample_world = (Inr [], sample_world)"
proof -
  have h1: "skip (sample_args\<lparr>skip := Some \<lparr>skipChangelog = Some True\<rparr>,
                     experimentalChangesTreatment := Some (str ''separate'')\<rparr>)
     = Some \<lparr>skipChangelog = Some True\<rparr>" by simp
  have h2: "skipChangelog \<lparr>skipChangelog = Some True\<rparr> = Some True" by simp
  show ?thesis using writeChangelogs_skip [OF h1 h2] h1 h2 by blast
qed

text \<open>
  C9. If the stream of the writer signals an error, the call of \<open>changelog\<close> rejects with
  that very error, and nothing is written to the changelog file beyond what
  \<open>createChangelogIfMissing\<close> did at the start: a file that existed keeps its content, a
  missing one holds the single newline it was created with (or is still missing, in
  dry-run mode), and no other file changes.
\<close>

theorem changelog_renderer_error:
  assumes "conventionalChangelogPresetLoader d (str ''conventional-changelog-conventionalcommits'')
             = Inr presetConfig"
    and "changelogStream d args presetConfig currentVersion newVersion commits = Errored chunks err"
  shows "fst (changelog d args currentVersion newVersion commits w) = Inl (Rejected err)
       \<and> files (snd (changelog d args currentVersion newVersion commits w))
           = (if truthy (dryRun args) \<or> files w (changelogFile args) \<noteq> None then files w
              else (files w)(changelogFile args \<mapsto> str ''\<newline>''))"
proof -
  have "rendering d args currentVersion newVersion commits = Inl (Rejected err)"
    using assms by (simp add: rendering_def changelogStream_def)
  then show ?thesis by (simp add: changelog_result changelog_files)
qed

theorem changelog_renderer_error_witness:
  "conventionalChangelogPresetLoader failing_deps (str ''conventional-changelog-conventionalcommits'')
     = Inr ()
   \<and> changelogStream failing_deps sample_args () (str ''1.2.0'') (str ''1.3.0'') sample_commits
       = Errored [str ''## ''] (str ''template error'')
   \<and> fst (changelog failing_deps sample_args (str ''1.2.0'') (str ''1.3.0'') sample_commits
         sample_world) = Inl (Rejected (str ''template error''))
   \<and> files (snd (changelog failing_deps sample_args (str ''1.2.0'') (str ''1.3.0'')
         sample_commits sample_world)) = files sample_world
   \<and> fst (changelog failing_deps sample_args (str ''1.2.0'') (str ''1.3.0'') sample_commits
         empty_world) = Inl (Rejected (str ''template error''))
   \<and> files (snd (changelog failing_deps sample_args (str ''1.2.0'') (str ''1.3.0'')
         sample_commits empty_world)) = [str ''CHANGELOG.md'' \<mapsto> str ''\<newline>'']"
proof -
  have p: "conventionalChangelogPresetLoader failing_deps
      (str ''conventional-changelog-conventionalcommits'') = Inr ()"
    by (simp add: failing_deps_def sample_deps_def)
  have s: "changelogStream failing_deps sample_args () (str ''1.2.0'') (str ''1.3.0'') sample_commits
       = Errored [str ''## ''] (str ''template error'')"
    by (simp add: changelogStream_def failing_deps_def)
  note a = changelog_renderer_error [OF p s, of sample_world]
  note b = changelog_renderer_error [OF p s, of empty_world]
  have 1: "files (snd (changelog failing_deps sample_args (str ''1.2.0'') (str ''1.3.0'')
         sample_commits sample_world)) = files sample_world"
    unfolding a [THEN conjunct2] by (simp add: sample_world_def sample_args_def)
  have 2: "files (snd (changelog failing_deps sample_args (str ''1.2.0'') (str ''1.3.0'')
         sample_commits empty_world)) = [str ''CHANGELOG.md'' \<mapsto> str ''\<newline>'']"
    unfolding b [THEN conjunct2] by (simp add: empty_world_def sample_args_def truthy_def)
  show ?thesis
    by (intro conjI) (rule p s a [THEN conjunct1] b [THEN conjunct1] 1 2)+
qed

text \<open>
  C10. With \<open>skip.changelog\<close> not set and no \<open>experimentalChangesTreatment\<close>,
  \<open>writeChangelogs\<close> does exactly what it does under \<open>include\<close>: the full commit list is
  rendered against the stable version pair and the result is the single entry for
  \<open>args.changelogFile\<close> (or the error of that render). The error for an unsupported
  treatment is raised exactly for a treatment that is present and is none of \<open>include\<close>,
  \<open>strip\<close>, \<open>separate\<close>; never for an absent one.
\<close>

theorem writeChangelogs_default_treatment:
  assumes "\<not> skipsChangelog args"
  shows "(experimentalChangesTreatment args = None \<longrightarrow>
            writeChangelogs d sched args currentVersion newVersion commits packages w
              = writeChangelogs d sched (args\<lparr>experimentalChangesTreatment := Some (str ''include'')\<rparr>)
                  currentVersion newVersion commits packages w
          \<and> fst (writeChangelogs d sched args currentVersion newVersion commits packages w)
              = map_sum id (\<lambda>contents. [\<lparr>filePath = changelogFile args, fileContents = contents\<rparr>])
                  (rendering d args (stableVersion currentVersion) (stableVersion newVersion) commits))
       \<and> ((\<exists>m. fst (writeChangelogs d sched args currentVersion newVersion commits packages w)
                 = Inl (Error (str ''unsupported experimentalChanges type: '' @ m)))
            \<longleftrightarrow> (\<exists>t. experimentalChangesTreatment args = Some t \<and> t \<noteq> str ''include''
                      \<and> t \<noteq> str ''strip'' \<and> t \<noteq> str ''separate''))"
proof (intro conjI impI)
  assume none: "experimentalChangesTreatment args = None"
  let ?args = "args\<lparr>experimentalChangesTreatment := Some (str ''include'')\<rparr>"
  have "changelog d ?args c n cs w = changelog d args c n cs w" for c n cs
    by (rule changelog_treatment)
  moreover have "skipsChangelog ?args = skipsChangelog args" by (simp add: skipsChangelog_def)
  ultimately show "writeChangelogs d sched args currentVersion newVersion commits packages w
      = writeChangelogs d sched ?args currentVersion newVersion commits packages w"
    using none assms by (simp add: writeChangelogs_def Let_def split: prod.splits sum.splits)
next
  assume "experimentalChangesTreatment args = None"
  then show "fst (writeChangelogs d sched args currentVersion newVersion commits packages w)
      = map_sum id (\<lambda>contents. [\<lparr>filePath = changelogFile args, fileContents = contents\<rparr>])
          (rendering d args (stableVersion currentVersion) (stableVersion newVersion) commits)"
    using assms by (simp add: writeChangelogs_include)
next
  let ?r = "fst (writeChangelogs d sched args currentVersion newVersion commits packages w)"
  let ?pre = "str ''unsupported experimentalChanges type: ''"
  show "(\<exists>m. ?r = Inl (Error (?pre @ m)))
      \<longleftrightarrow> (\<exists>t. experimentalChangesTreatment args = Some t \<and> t \<noteq> str ''include''
                \<and> t \<noteq> str ''strip'' \<and> t \<noteq> str ''separate'')"
  proof
    assume "\<exists>m. ?r = Inl (Error (?pre @ m))"
    then obtain m where m: "?r = Inl (Error (?pre @ m))" ..
    have inc: False
      if "experimentalChangesTreatment args = None
           \<or> experimentalChangesTreatment args = Some (str ''include'')"
      using m writeChangelogs_include [OF assms that, of d sched currentVersion newVersion commits packages w]
      by (cases "rendering d args (stableVersion currentVersion) (stableVersion newVersion) commits")
         (auto dest: rendering_Inl)
    have strip: False if "experimentalChangesTreatment args = Some (str ''strip'')"
      using m writeChangelogs_strip [OF assms that, of d sched currentVersion newVersion commits packages w]
      by (cases "rendering d args (stableVersion currentVersion) (stableVersion newVersion)
          (filterCommits d commits
             \<lparr>excludePackages = Some (map simplifiedName (filter unstable packages)),
              includePackages = None\<rparr>)")
         (auto dest: rendering_Inl)
    have sep: False if "experimentalChangesTreatment args = Some (str ''separate'')"
    proof (cases "falsy (alphaVersion currentVersion) \<or> falsy (alphaVersion newVersion)")
      case True
      then have "?r = Inl (Error (str ''unable to create \"separate\" changelogs without alpha package versions''))"
        by (simp add: writeChangelogs_separate [OF assms that])
      then show False using m by (simp add: str_def)
    next
      case False
      then show False using m separate_Inl [of d sched args] 
        by (simp add: writeChangelogs_separate [OF assms that]) blast
    qed
    show "\<exists>t. experimentalChangesTreatment args = Some t \<and> t \<noteq> str ''include''
                \<and> t \<noteq> str ''strip'' \<and> t \<noteq> str ''separate''"
      using inc strip sep by (cases "experimentalChangesTreatment args") auto
  next
    assume "\<exists>t. experimentalChangesTreatment args = Some t \<and> t \<noteq> str ''include''
                \<and> t \<noteq> str ''strip'' \<and> t \<noteq> str ''separate''"
    then obtain t where "experimentalChangesTreatment args = Some t" "t \<noteq> str ''include''"
      "t \<noteq> str ''strip''" "t \<noteq> str ''separate''" by blast
    from writeChangelogs_unsupported [OF assms this, of d sched currentVersion newVersion commits packages w]
    have "?r = Inl (Error (?pre @ t))" by simp
    then show "\<exists>m. ?r = Inl (Error (?pre @ m))" by blast
  qed
qed

theorem writeChangelogs_default_treatment_witness:
  "\<not> skipsChangelog sample_args
   \<and> experimentalChangesTreatment sample_args = None
   \<and> writeChangelogs sample_deps [] sample_args sample_current sample_new sample_commits
         sample_packages sample_world
       = writeChangelogs sample_deps []
           (sample_args\<lparr>experimentalChangesTreatment := Some (str ''include'')\<rparr>)
           sample_current sample_new sample_commits sample_packages sample_world
   \<and> fst (writeChangelogs sample_deps [] sample_args sample_current sample_new sample_commits
         sample_packages sample_world)
       = map_sum id (\<lambda>contents. [\<lparr>filePath = changelogFile sample_args, fileContents = contents\<rparr>])
           (rendering sample_deps sample_args (stableVersion sample_current)
              (stableVersion sample_new) sample_commits)
   \<and> \<not> (\<exists>m. fst (writeChangelogs sample_deps [] sample_args sample_current sample_new
                    sample_commits sample_packages sample_world)
                = Inl (Error (str ''unsupported experimentalChanges type: '' @ m)))"
proof -
  have h: "\<not> skipsChangelog sample_args"
    by (simp add: skipsChangelog_def sample_args_def)
  have n: "experimentalChangesTreatment sample_args = None"
    by (simp add: sample_args_def)
  note t = writeChangelogs_default_treatment [OF h, of sample_deps "[]" sample_current
      sample_new sample_commits sample_packages sample_world]
  note a = t [THEN conjunct1, THEN mp, OF n]
  have "\<not> (\<exists>t. experimentalChangesTreatment sample_args = Some t \<and> t \<noteq> str ''include''
             \<and> t \<noteq> str ''strip'' \<and> t \<noteq> str ''separate'')"
    using n by simp
  then have b: "\<not> (\<exists>m. fst (writeChangelogs sample_deps [] sample_args sample_current sample_new
                    sample_commits sample_packages sample_world)
                = Inl (Error (str ''unsupported experimentalChanges type: '' @ m)))"
    unfolding t [THEN conjunct2] .
  show ?thesis using h n a b by (intro conjI) (rule h n a [THEN conjunct1] a [THEN conjunct2] b)+
qed

end
